theory Spec2Isabelle
  imports Main
begin

section \<open>Conventions of the embedding\<close>

text \<open>
  The program is \<^verbatim>\<open>src/Rotonde-Client-babel.js\<close>: a definitions store, a handler manager,
  a connection wrapper and the client that composes them.

  \<^item> A JavaScript object used as a dictionary is an association list (when the order of
    its keys matters) or a map of its own properties. The index of a definitions store is
    read together with the properties it inherits from \<^verbatim>\<open>Object.prototype\<close>. For the
    \<^verbatim>\<open>Map\<close> of the handler manager, identifiers range over ordinary keys: the names
    it inherits (\<^verbatim>\<open>constructor\<close>, \<^verbatim>\<open>keys\<close>, \<^verbatim>\<open>size\<close>, ...) and the
    array-index-like names, which an object enumerates first, are outside the model.
  \<^item> \<^verbatim>\<open>undefined\<close> is \<open>None\<close>.
  \<^item> An exception is a value \<open>Inl e\<close> of the result type \<open>error + 'a\<close>.
  \<^item> A callback is a name; invoking it is recorded as an effect. A callback of the model
    does not call back into the manager that invokes it.
  \<^item> \<^verbatim>\<open>console.log\<close> is left out.
\<close>

datatype error =
  TypeError          \<comment> \<open>a property of \<^verbatim>\<open>undefined\<close> is read or called\<close>
| SocketNotOpen      \<comment> \<open>\<^verbatim>\<open>socket.send\<close> on a socket that has not opened\<close>

section \<open>The lodash functions the program calls\<close>

text \<open>\<^verbatim>\<open>_.indexOf(array, value)\<close>: the first index holding the value, \<open>-1\<close> when none does.\<close>

fun indexOf_from :: "'a list \<Rightarrow> 'a \<Rightarrow> int \<Rightarrow> int" where
  "indexOf_from [] v i = -1"
| "indexOf_from (x # xs) v i = (if x = v then i else indexOf_from xs v (i + 1))"

definition lodash_indexOf :: "'a list \<Rightarrow> 'a \<Rightarrow> int" where
  "lodash_indexOf xs v = indexOf_from xs v 0"

text \<open>\<^verbatim>\<open>_.uniq(array, iteratee)\<close>: the first element for each value of the iteratee, in order.\<close>

fun uniq_seen :: "('a \<Rightarrow> 'k) \<Rightarrow> 'k list \<Rightarrow> 'a list \<Rightarrow> 'a list" where
  "uniq_seen f seen [] = []"
| "uniq_seen f seen (x # xs) =
     (if f x \<in> set seen then uniq_seen f seen xs else x # uniq_seen f (f x # seen) xs)"

definition lodash_uniq :: "'a list \<Rightarrow> ('a \<Rightarrow> 'k) \<Rightarrow> 'a list" where
  "lodash_uniq xs f = uniq_seen f [] xs"

text \<open>\<^verbatim>\<open>_.union(a, b)\<close>: the unique values of both arrays, in order of first occurrence.\<close>

definition lodash_union :: "'a list \<Rightarrow> 'a list \<Rightarrow> 'a list" where
  "lodash_union a b = lodash_uniq (a @ b) (\<lambda>x. x)"

text \<open>\<^verbatim>\<open>_.indexBy(array, key)\<close>: an object holding, under each key, the last element with it.\<close>

definition lodash_indexBy :: "'a list \<Rightarrow> ('a \<Rightarrow> 'k) \<Rightarrow> ('k \<rightharpoonup> 'a)" where
  "lodash_indexBy xs f = fold (\<lambda>x m. m(f x \<mapsto> x)) xs Map.empty"

text \<open>\<^verbatim>\<open>_.compact(array)\<close>: the array without its falsy values (here: without \<^verbatim>\<open>undefined\<close>).\<close>

fun lodash_compact :: "'a option list \<Rightarrow> 'a list" where
  "lodash_compact [] = []"
| "lodash_compact (None # xs) = lodash_compact xs"
| "lodash_compact (Some x # xs) = x # lodash_compact xs"

text \<open>\<^verbatim>\<open>array.splice(index, 1)\<close> and \<^verbatim>\<open>array[index] = value\<close> for an index that
  \<^verbatim>\<open>_.indexOf\<close> returned: at \<open>-1\<close> the assignment writes a property named \<^verbatim>\<open>-1\<close>
  and no element.\<close>

definition splice1 :: "'a list \<Rightarrow> nat \<Rightarrow> 'a list" where
  "splice1 xs i = take i xs @ drop (Suc i) xs"

definition array_assign :: "'a list \<Rightarrow> int \<Rightarrow> 'a \<Rightarrow> 'a list" where
  "array_assign xs i v = (if 0 \<le> i \<and> nat i < length xs then xs[nat i := v] else xs)"

section \<open>The definitions store (\<^verbatim>\<open>newDefinitionsStore\<close>)\<close>

record field =
  f_name :: string
  f_attributes :: string

record defn =
  d_identifier :: string
  d_type :: string
  d_fields :: "field list"

text \<open>
  Fields and definitions are values here and objects in the program. The program compares
  objects by reference in \<^verbatim>\<open>_.union\<close> and \<^verbatim>\<open>_.indexOf\<close>; the model compares
  them by value. The results agree: \<^verbatim>\<open>_.uniq\<close> by name runs over the result of
  \<^verbatim>\<open>_.union\<close> and drops whatever either comparison drops, and \<^verbatim>\<open>_.indexOf\<close>
  looks for the one stored definition of an identifier.

  What \<^verbatim>\<open>_.indexOf\<close> compares are JavaScript values: a stored definition is an object,
  an identifier is a string, and a member of \<^verbatim>\<open>Object.prototype\<close> is neither.
\<close>

datatype jsval = JString string | JObject defn | JInherited

text \<open>
  The index \<^verbatim>\<open>definitionsByIdentifier\<close> is a plain object: \<^verbatim>\<open>{}\<close> at first, the result
  of \<^verbatim>\<open>_.indexBy\<close> later. Reading a property of it gives the stored definition (an own
  property), or what every plain object inherits from \<^verbatim>\<open>Object.prototype\<close> under that
  name, or \<^verbatim>\<open>undefined\<close>. The inherited names are those of ECMAScript and of its
  annex B; their values are functions, and the prototype object itself under
  \<^verbatim>\<open>__proto__\<close>: all truthy, none with a property \<^verbatim>\<open>fields\<close>.
\<close>

definition Object_prototype_names :: "string list" where
  "Object_prototype_names =
     [''constructor'', ''hasOwnProperty'', ''isPrototypeOf'', ''propertyIsEnumerable'',
      ''toLocaleString'', ''toString'', ''valueOf'', ''__proto__'',
      ''__defineGetter__'', ''__defineSetter__'', ''__lookupGetter__'', ''__lookupSetter__'']"

datatype property = Stored defn | Inherited

definition object_get :: "(string \<rightharpoonup> defn) \<Rightarrow> string \<Rightarrow> property option" where
  "object_get own key =
     (case own key of
        Some d \<Rightarrow> Some (Stored d)
      | None \<Rightarrow> if key \<in> set Object_prototype_names then Some Inherited else None)"

text \<open>The value as \<^verbatim>\<open>_.indexOf\<close> sees it, and its \<^verbatim>\<open>fields\<close>: \<^verbatim>\<open>undefined\<close> for
  an inherited value, which \<^verbatim>\<open>_.union\<close> passes over.\<close>

fun property_value :: "property \<Rightarrow> jsval" where
  "property_value (Stored d) = JObject d"
| "property_value Inherited = JInherited"

fun property_fields :: "property \<Rightarrow> field list" where
  "property_fields (Stored d) = d_fields d"
| "property_fields Inherited = []"

record store =
  definitions :: "defn list"
  definitionsByIdentifier :: "string \<rightharpoonup> defn"

definition newDefinitionsStore :: store where
  "newDefinitionsStore = \<lparr>definitions = [], definitionsByIdentifier = Map.empty\<rparr>"

definition getDefinition :: "store \<Rightarrow> string \<Rightarrow> property option" where
  "getDefinition s identifier' = object_get (definitionsByIdentifier s) identifier'"

text \<open>\<^verbatim>\<open>addDefinition\<close> assigns the merged field list to the definition it was given; the
  result is that definition, as the caller sees it afterwards, and the store. \<^verbatim>\<open>if (d)\<close>
  succeeds for an inherited value as well; \<^verbatim>\<open>_.indexOf\<close> then returns \<open>-1\<close> and the
  assignment \<^verbatim>\<open>definitions[index] = definition\<close> adds no element.\<close>

definition addDefinition :: "defn \<Rightarrow> store \<Rightarrow> defn \<times> store" where
  "addDefinition dn s =
     (case object_get (definitionsByIdentifier s) (d_identifier dn) of
        Some d \<Rightarrow>
          (let index = lodash_indexOf (map JObject (definitions s)) (property_value d);
               fields' = lodash_uniq (lodash_union (property_fields d) (d_fields dn)) f_name;
               dn' = dn\<lparr>d_fields := fields'\<rparr>;
               ds = array_assign (definitions s) index dn'
           in (dn', \<lparr>definitions = ds, definitionsByIdentifier = lodash_indexBy ds d_identifier\<rparr>))
      | None \<Rightarrow>
          (let ds = definitions s @ [dn]
           in (dn, \<lparr>definitions = ds, definitionsByIdentifier = lodash_indexBy ds d_identifier\<rparr>)))"

definition removeDefinition :: "string \<Rightarrow> store \<Rightarrow> store" where
  "removeDefinition identifier' s =
     (let index = lodash_indexOf (map JObject (definitions s)) (JString identifier')
      in if index < 0 then s
         else (let ds = splice1 (definitions s) (nat index)
               in \<lparr>definitions = ds, definitionsByIdentifier = lodash_indexBy ds d_identifier\<rparr>))"

text \<open>\<open>put\<close> is what the specification calls \<^verbatim>\<open>addDefinition\<close>, seen from the store.\<close>

definition put :: "defn \<Rightarrow> store \<Rightarrow> store" where
  "put dn s = snd (addDefinition dn s)"

text \<open>The state of a store that the program's own operations keep: the index is the one
  built from the list, no two stored definitions share an identifier, and no stored
  definition has an inherited name as its identifier.\<close>

definition store_ok :: "store \<Rightarrow> bool" where
  "store_ok s \<longleftrightarrow>
     definitionsByIdentifier s = lodash_indexBy (definitions s) d_identifier \<and>
     distinct (map d_identifier (definitions s)) \<and>
     (\<forall>d\<in>set (definitions s). d_identifier d \<notin> set Object_prototype_names)"


text \<open>The merge of two field lists in the specification's words: the union of both lists,
  deduplicated by field name, the first list's fields taking precedence.\<close>

fun dedup_by_name :: "field list \<Rightarrow> field list" where
  "dedup_by_name [] = []"
| "dedup_by_name (f # fs) = f # dedup_by_name (filter (\<lambda>g. f_name g \<noteq> f_name f) fs)"

definition spec_merge_fields :: "field list \<Rightarrow> field list \<Rightarrow> field list" where
  "spec_merge_fields a b = dedup_by_name (a @ b)"

section \<open>The handler manager (\<^verbatim>\<open>newHandlerManager\<close>)\<close>

text \<open>
  What a call of the manager does beyond changing the manager: invoking a callback and
  firing one of the two hooks it was built with. The effects of a call are listed in the
  order in which they happen. All four managers of the program are built with both hooks,
  so the tests \<^verbatim>\<open>if (firstAddedCallback)\<close> and \<^verbatim>\<open>if (lastRemovedCallback)\<close> succeed.
\<close>

datatype ('cb, 'p) effect =
  Invoke 'cb 'p          \<comment> \<open>\<^verbatim>\<open>callback(param)\<close>\<close>
| FirstAdded string      \<comment> \<open>\<^verbatim>\<open>firstAddedCallback(identifier)\<close>\<close>
| LastRemoved string     \<comment> \<open>\<^verbatim>\<open>lastRemovedCallback(identifier)\<close>\<close>

text \<open>
  \<^verbatim>\<open>var handlers = new Map()\<close> is used in two ways. \<^verbatim>\<open>handlers[identifier]\<close> reads and
  writes a property of the object: \<open>handlers\<close> lists the properties in the order of their
  creation, each holding an array of \<^verbatim>\<open>[callback, callCount]\<close> pairs or
  \<^verbatim>\<open>undefined\<close>. \<^verbatim>\<open>handlers.keys()\<close> iterates the keys of the entries of the Map, which
  only \<^verbatim>\<open>Map.prototype.set\<close> adds: \<open>handlers_keys\<close>. The program never calls
  \<^verbatim>\<open>set\<close>.
\<close>

record 'cb handlerManager =
  handlers :: "(string \<times> ('cb \<times> int) list option) list"
  handlers_keys :: "string list"

type_synonym ('cb, 'p) hm_state = "'cb handlerManager \<times> ('cb, 'p) effect list"

definition newHandlerManager :: "'cb handlerManager" where
  "newHandlerManager = \<lparr>handlers = [], handlers_keys = []\<rparr>"

text \<open>Reading \<^verbatim>\<open>handlers[identifier]\<close>: \<^verbatim>\<open>undefined\<close> for a missing property, too.\<close>

definition handlers_get :: "'cb handlerManager \<Rightarrow> string \<Rightarrow> ('cb \<times> int) list option" where
  "handlers_get m identifier' =
     (case map_of (handlers m) identifier' of Some v \<Rightarrow> v | None \<Rightarrow> None)"

text \<open>Writing \<^verbatim>\<open>handlers[identifier] = v\<close>: an existing property keeps its place.\<close>

fun prop_assign :: "(string \<times> 'v) list \<Rightarrow> string \<Rightarrow> 'v \<Rightarrow> (string \<times> 'v) list" where
  "prop_assign [] k v = [(k, v)]"
| "prop_assign ((k', v') # ps) k v =
     (if k' = k then (k, v) # ps else (k', v') # prop_assign ps k v)"

definition handlers_set ::
  "'cb handlerManager \<Rightarrow> string \<Rightarrow> ('cb \<times> int) list option \<Rightarrow> 'cb handlerManager" where
  "handlers_set m identifier' v = m\<lparr>handlers := prop_assign (handlers m) identifier' v\<rparr>"

definition detachAtIndex ::
  "string \<Rightarrow> nat \<Rightarrow> ('cb, 'p) hm_state \<Rightarrow> error + ('cb, 'p) hm_state" where
  "detachAtIndex identifier' index st =
     (case st of (m, es) \<Rightarrow>
        (case handlers_get m identifier' of
           None \<Rightarrow> Inl TypeError
         | Some h \<Rightarrow>
             (let h' = splice1 h index
              in if length h' = 0
                 then Inr (handlers_set m identifier' None, es @ [LastRemoved identifier'])
                 else Inr (handlers_set m identifier' (Some h'), es))))"

text \<open>The array that \<^verbatim>\<open>handlers[identifier]\<close> holds, or 0 for \<^verbatim>\<open>undefined\<close>: what the
  loops below count down.\<close>

definition handlers_length :: "'cb handlerManager \<Rightarrow> string \<Rightarrow> nat" where
  "handlers_length m identifier' =
     (case handlers_get m identifier' of None \<Rightarrow> 0 | Some h \<Rightarrow> length h)"

text \<open>
  The loop of \<^verbatim>\<open>callHandlers\<close>. The local \<^verbatim>\<open>h\<close> is the array of
  \<^verbatim>\<open>handlers[identifier]\<close>; once \<^verbatim>\<open>detachAtIndex\<close> has emptied the array and set the
  property to \<^verbatim>\<open>undefined\<close>, \<^verbatim>\<open>h.length\<close> is 0 and the loop ends, which is the branch
  \<open>None\<close>.
\<close>

function callHandlers_loop ::
  "string \<Rightarrow> 'p \<Rightarrow> nat \<Rightarrow> ('cb, 'p) hm_state \<Rightarrow> error + ('cb, 'p) hm_state" where
  "callHandlers_loop identifier' param i (m, es) =
     (case handlers_get m identifier' of
        None \<Rightarrow> Inr (m, es)
      | Some h \<Rightarrow>
          if i < length h then
            (case h ! i of (callback, callCount) \<Rightarrow>
               if callCount > 0 then
                 (let m1 = handlers_set m identifier' (Some (h[i := (callback, callCount - 1)]))
                  in if callCount - 1 = 0
                     then (case detachAtIndex identifier' i (m1, es) of
                             Inl e \<Rightarrow> Inl e
                           | Inr (m2, es2) \<Rightarrow>
                               callHandlers_loop identifier' param (i + 1)
                                 (m2, es2 @ [Invoke callback param]))
                     else callHandlers_loop identifier' param (i + 1)
                            (m1, es @ [Invoke callback param]))
               else callHandlers_loop identifier' param (i + 1) (m, es @ [Invoke callback param]))
          else Inr (m, es))"
  by pat_completeness auto

lemma handlers_get_prop_assign:
  "(case map_of (prop_assign ps k v) k' of Some x \<Rightarrow> x | None \<Rightarrow> None) =
   (if k' = k then v else (case map_of ps k' of Some x \<Rightarrow> x | None \<Rightarrow> None))"
  by (induction ps) auto

lemma handlers_get_set:
  "handlers_get (handlers_set m k v) k' = (if k' = k then v else handlers_get m k')"
  by (simp add: handlers_get_def handlers_set_def handlers_get_prop_assign)

lemma handlers_length_set:
  "handlers_length (handlers_set m k v) k = (case v of None \<Rightarrow> 0 | Some h \<Rightarrow> length h)"
  by (simp add: handlers_length_def handlers_get_set)

lemma detachAtIndex_length:
  assumes "detachAtIndex k i (m, es) = Inr (m', es')" and "i < handlers_length m k"
  shows "handlers_length m' k = handlers_length m k - 1"
  using assms
  by (auto simp: detachAtIndex_def handlers_length_def handlers_get_set splice1_def Let_def
           split: option.splits if_splits)

termination callHandlers_loop
proof (relation "measure (\<lambda>(k, p, i, (m, es)). handlers_length m k - i)")
  show "wf (measure (\<lambda>(k, p, i, (m, es)). handlers_length m k - i))" by simp
next
  fix identifier' :: string and param :: 'p and i :: nat and m :: "'cb handlerManager"
    and es :: "('cb, 'p) effect list" and h x callback callCount m1 r m2 es2
  assume h: "handlers_get m identifier' = Some h" "i < length h"
    and m1: "m1 = handlers_set m identifier' (Some (h[i := (callback, callCount - 1)]))"
    and d: "detachAtIndex identifier' i (m1, es) = Inr r" "(m2, es2) = r"
  have "handlers_length m1 identifier' = length h"
    using m1 by (simp add: handlers_length_set)
  with detachAtIndex_length[of identifier' i m1 es m2 es2] d h
  have "handlers_length m2 identifier' = length h - 1" by auto
  with h show "((identifier', param, i + 1, m2, es2 @ [Invoke callback param]),
                 identifier', param, i, m, es)
               \<in> measure (\<lambda>(k, p, i, (m, es)). handlers_length m k - i)"
    by (simp add: handlers_length_def)
next
  fix identifier' :: string and param :: 'p and i :: nat and m :: "'cb handlerManager"
    and es :: "('cb, 'p) effect list" and h x callback callCount m1
  assume "handlers_get m identifier' = Some h" "i < length h"
    and "m1 = handlers_set m identifier' (Some (h[i := (callback, callCount - 1)]))"
  then show "((identifier', param, i + 1, m1, es @ [Invoke callback param]),
               identifier', param, i, m, es)
             \<in> measure (\<lambda>(k, p, i, (m, es)). handlers_length m k - i)"
    by (simp add: handlers_length_def handlers_get_set)
next
  fix identifier' :: string and param :: 'p and i :: nat and m :: "'cb handlerManager"
    and es :: "('cb, 'p) effect list" and h x callback callCount
  assume "handlers_get m identifier' = Some h" "i < length h"
  then show "((identifier', param, i + 1, m, es @ [Invoke callback param]),
               identifier', param, i, m, es)
             \<in> measure (\<lambda>(k, p, i, (m, es)). handlers_length m k - i)"
    by (simp add: handlers_length_def)
qed

definition callHandlers :: "string \<Rightarrow> 'p \<Rightarrow> ('cb, 'p) hm_state \<Rightarrow> error + ('cb, 'p) hm_state" where
  "callHandlers identifier' param st = callHandlers_loop identifier' param 0 st"

definition registeredIdentifiers :: "'cb handlerManager \<Rightarrow> string list" where
  "registeredIdentifiers m = map fst (handlers m)"

text \<open>\<^verbatim>\<open>attach\<close>: \<open>None\<close> is a call without \<^verbatim>\<open>callCount\<close>.\<close>

definition attach ::
  "string \<Rightarrow> 'cb \<Rightarrow> int option \<Rightarrow> ('cb, 'p) hm_state \<Rightarrow> ('cb, 'p) hm_state" where
  "attach identifier' callback callCount st =
     (case st of (m, es) \<Rightarrow>
        (let callCount' = (case callCount of None \<Rightarrow> - 1 | Some n \<Rightarrow> n)
         in case handlers_get m identifier' of
              None \<Rightarrow>
                (handlers_set m identifier' (Some ([] @ [(callback, callCount')])),
                 es @ [FirstAdded identifier'])
            | Some h \<Rightarrow>
                (handlers_set m identifier' (Some (h @ [(callback, callCount')])), es)))"

definition attachOnce :: "string \<Rightarrow> 'cb \<Rightarrow> ('cb, 'p) hm_state \<Rightarrow> ('cb, 'p) hm_state" where
  "attachOnce identifier' callback st = attach identifier' callback (Some 1) st"

text \<open>The loop of \<^verbatim>\<open>detach\<close>, over the same local \<^verbatim>\<open>h\<close> as in \<^verbatim>\<open>callHandlers\<close>.\<close>

function detach_loop ::
  "string \<Rightarrow> 'cb \<Rightarrow> nat \<Rightarrow> ('cb, 'p) hm_state \<Rightarrow> error + ('cb, 'p) hm_state" where
  "detach_loop identifier' callback i (m, es) =
     (case handlers_get m identifier' of
        None \<Rightarrow> Inr (m, es)
      | Some h \<Rightarrow>
          if i < length h then
            (case h ! i of (cb, n) \<Rightarrow>
               if cb = callback
               then (case detachAtIndex identifier' i (m, es) of
                       Inl e \<Rightarrow> Inl e
                     | Inr (m2, es2) \<Rightarrow> detach_loop identifier' callback (i + 1) (m2, es2))
               else detach_loop identifier' callback (i + 1) (m, es))
          else Inr (m, es))"
  by pat_completeness auto

termination detach_loop
proof (relation "measure (\<lambda>(k, cb, i, (m, es)). handlers_length m k - i)")
  show "wf (measure (\<lambda>(k, cb, i, (m, es)). handlers_length m k - i))" by simp
next
  fix identifier' :: string and callback :: 'cb and i :: nat and m :: "'cb handlerManager"
    and es :: "('cb, 'p) effect list" and h x cb n r m2 es2
  assume h: "handlers_get m identifier' = Some h" "i < length h"
    and d: "detachAtIndex identifier' i (m, es) = Inr r" "(m2, es2) = r"
  from detachAtIndex_length[of identifier' i m es m2 es2] d h
  have "handlers_length m2 identifier' = length h - 1"
    by (auto simp: handlers_length_def)
  with h show "((identifier', callback, i + 1, m2, es2), identifier', callback, i, m, es)
               \<in> measure (\<lambda>(k, cb, i, (m, es)). handlers_length m k - i)"
    by (simp add: handlers_length_def)
next
  fix identifier' :: string and callback :: 'cb and i :: nat and m :: "'cb handlerManager"
    and es :: "('cb, 'p) effect list" and h x cb n
  assume "handlers_get m identifier' = Some h" "i < length h"
  then show "((identifier', callback, i + 1, m, es), identifier', callback, i, m, es)
             \<in> measure (\<lambda>(k, cb, i, (m, es)). handlers_length m k - i)"
    by (simp add: handlers_length_def)
qed

definition detach :: "string \<Rightarrow> 'cb \<Rightarrow> ('cb, 'p) hm_state \<Rightarrow> error + ('cb, 'p) hm_state" where
  "detach identifier' callback st = detach_loop identifier' callback 0 st"

text \<open>
  \<^verbatim>\<open>detachAll\<close>: the outer loop runs over \<^verbatim>\<open>handlers.keys()\<close>; the inner loop reads
  \<^verbatim>\<open>handlers[identifier].length\<close> before every round, which throws once the property is
  \<^verbatim>\<open>undefined\<close>. The \<^verbatim>\<open>try\<close>/\<^verbatim>\<open>finally\<close> around the loops rethrows.
\<close>

function detachAll_inner ::
  "string \<Rightarrow> nat \<Rightarrow> ('cb, 'p) hm_state \<Rightarrow> error + ('cb, 'p) hm_state" where
  "detachAll_inner identifier' i (m, es) =
     (case handlers_get m identifier' of
        None \<Rightarrow> Inl TypeError
      | Some h \<Rightarrow>
          if i < length h
          then (case detachAtIndex identifier' i (m, es) of
                  Inl e \<Rightarrow> Inl e
                | Inr (m2, es2) \<Rightarrow> detachAll_inner identifier' (i + 1) (m2, es2))
          else Inr (m, es))"
  by pat_completeness auto

termination detachAll_inner
proof (relation "measure (\<lambda>(k, i, (m, es)). handlers_length m k - i)")
  show "wf (measure (\<lambda>(k, i, (m, es)). handlers_length m k - i))" by simp
next
  fix identifier' :: string and i :: nat and m :: "'cb handlerManager"
    and es :: "('cb, 'p) effect list" and h r m2 es2
  assume h: "handlers_get m identifier' = Some h" "i < length h"
    and d: "detachAtIndex identifier' i (m, es) = Inr r" "(m2, es2) = r"
  from detachAtIndex_length[of identifier' i m es m2 es2] d h
  have "handlers_length m2 identifier' = length h - 1"
    by (auto simp: handlers_length_def)
  with h show "((identifier', i + 1, m2, es2), identifier', i, m, es)
               \<in> measure (\<lambda>(k, i, (m, es)). handlers_length m k - i)"
    by (simp add: handlers_length_def)
qed

fun detachAll_keys :: "string list \<Rightarrow> ('cb, 'p) hm_state \<Rightarrow> error + ('cb, 'p) hm_state" where
  "detachAll_keys [] st = Inr st"
| "detachAll_keys (identifier' # ks) st =
     (case detachAll_inner identifier' 0 st of
        Inl e \<Rightarrow> Inl e
      | Inr st' \<Rightarrow> detachAll_keys ks st')"

definition detachAll :: "('cb, 'p) hm_state \<Rightarrow> error + ('cb, 'p) hm_state" where
  "detachAll st = detachAll_keys (handlers_keys (fst st)) st"

section \<open>The connection (\<^verbatim>\<open>newRotondeConnection\<close>)\<close>

text \<open>
  A packet is the JSON object \<^verbatim>\<open>{type, payload}\<close>. The payloads the program builds and
  reads: \<^verbatim>\<open>{identifier, data}\<close> of an event or an action, a definition, and
  \<^verbatim>\<open>{identifier}\<close> of a subscription. The type of a packet is a string, compared with
  the six type names; the data of an event or action is opaque text. \<open>InheritedValue\<close> is
  what \<^verbatim>\<open>JSON.stringify\<close> leaves of a member of \<^verbatim>\<open>Object.prototype\<close> as payload (no
  payload for a function, \<^verbatim>\<open>{}\<close> for the prototype object): it has neither
  \<^verbatim>\<open>identifier\<close> nor \<^verbatim>\<open>type\<close>.
\<close>

datatype payload =
  IdentifierData string string
| DefinitionObject defn
| IdentifierOnly string
| InheritedValue

record packet =
  p_type :: string
  p_payload :: payload

definition ACTION :: string where "ACTION = ''action''"
definition EVENT :: string where "EVENT = ''event''"
definition DEFINITION :: string where "DEFINITION = ''def''"
definition UNDEFINITION :: string where "UNDEFINITION = ''undef''"
definition SUBSCRIBE :: string where "SUBSCRIBE = ''sub''"
definition UNSUBSCRIBE :: string where "UNSUBSCRIBE = ''unsub''"

text \<open>
  The socket is the transport, which is not part of the program. Of its contract the model
  keeps: \<^verbatim>\<open>socket.send\<close> hands a text to the channel (\<open>sent\<close> lists the packets in
  order) and throws while the socket has not opened; \<^verbatim>\<open>socket.onopen\<close> runs once the
  socket has opened. \<open>connected\<close> is the variable of that name.
\<close>

record rotondeConnection =
  connected :: bool
  sent :: "packet list"

definition newRotondeConnection :: rotondeConnection where
  "newRotondeConnection = \<lparr>connected = False, sent = []\<rparr>"

definition socket_send :: "packet \<Rightarrow> rotondeConnection \<Rightarrow> error + rotondeConnection" where
  "socket_send pk k = (if connected k then Inr (k\<lparr>sent := sent k @ [pk]\<rparr>) else Inl SocketNotOpen)"

definition connection_isConnected :: "rotondeConnection \<Rightarrow> bool" where
  "connection_isConnected k = connected k"

definition connection_sendEvent ::
  "string \<Rightarrow> string \<Rightarrow> rotondeConnection \<Rightarrow> error + rotondeConnection" where
  "connection_sendEvent identifier' data k =
     socket_send \<lparr>p_type = EVENT, p_payload = IdentifierData identifier' data\<rparr> k"

definition connection_sendAction ::
  "string \<Rightarrow> string \<Rightarrow> rotondeConnection \<Rightarrow> error + rotondeConnection" where
  "connection_sendAction identifier' data k =
     socket_send \<lparr>p_type = ACTION, p_payload = IdentifierData identifier' data\<rparr> k"

definition connection_sendDefinition :: "defn \<Rightarrow> rotondeConnection \<Rightarrow> error + rotondeConnection" where
  "connection_sendDefinition dn k =
     socket_send \<lparr>p_type = DEFINITION, p_payload = DefinitionObject dn\<rparr> k"

definition connection_sendUnDefinition ::
  "property \<Rightarrow> rotondeConnection \<Rightarrow> error + rotondeConnection" where
  "connection_sendUnDefinition unDefinition k =
     socket_send
       \<lparr>p_type = UNDEFINITION,
        p_payload = (case unDefinition of
                       Stored dn \<Rightarrow> DefinitionObject dn
                     | Inherited \<Rightarrow> InheritedValue)\<rparr> k"

definition connection_sendSubscribe :: "string \<Rightarrow> rotondeConnection \<Rightarrow> error + rotondeConnection" where
  "connection_sendSubscribe identifier' k =
     socket_send \<lparr>p_type = SUBSCRIBE, p_payload = IdentifierOnly identifier'\<rparr> k"

definition connection_sendUnsubscribe :: "string \<Rightarrow> rotondeConnection \<Rightarrow> error + rotondeConnection" where
  "connection_sendUnsubscribe identifier' k =
     socket_send \<lparr>p_type = UNSUBSCRIBE, p_payload = IdentifierOnly identifier'\<rparr> k"

section \<open>The client (\<^verbatim>\<open>module.exports\<close>)\<close>

text \<open>
  The callbacks that the handler managers of a client hold: a callback of the user, known by
  a number, and the closure \<^verbatim>\<open>fn\<close> that \<^verbatim>\<open>makePromise\<close> attaches for the promise of
  that number. Ready callbacks are numbered on their own.
\<close>

datatype callback = UserCallback nat | PromiseFn nat

datatype promise = Pending | Resolved payload | Rejected string

datatype manager = EventHandlers | ActionHandlers | DefinitionHandlers | UnDefinitionHandlers

text \<open>\<^verbatim>\<open>{ action: newDefinitionsStore(), event: newDefinitionsStore() }\<close>\<close>

record definitionStores =
  action_store :: store
  event_store :: store

text \<open>
  A call of \<^verbatim>\<open>bootstrap\<close> that found definitions missing: what its continuation
  (the function given to \<^verbatim>\<open>then\<close>) still needs, the promises of
  \<^verbatim>\<open>requireDefinitions\<close> it waits for, and how far it is.
\<close>

datatype stage =
  AwaitingDefinitions          \<comment> \<open>the continuation has not run\<close>
| AwaitingEvents "nat list"    \<comment> \<open>\<^verbatim>\<open>promises()\<close> returned these event promises\<close>
| Thrown error                 \<comment> \<open>\<^verbatim>\<open>promises()\<close> threw\<close>

record bootstrapCall =
  b_actions :: "(string \<times> string) list"
  b_events :: "string list"
  b_timeout :: nat
  b_required :: "nat list"
  b_stage :: stage

text \<open>
  The variables of the closure, and below them what the client has done to its
  environment. \<open>connection\<close> is the variable of that name: the connection that the last
  \<^verbatim>\<open>connect\<close> created. The connections of earlier calls of \<^verbatim>\<open>connect\<close> are no longer
  held by a variable, but their sockets live on and call \<^verbatim>\<open>ready\<close> and
  \<^verbatim>\<open>handleMessage\<close> of this client: \<open>superseded\<close> lists them, oldest first. Then: the
  user's handler callbacks and ready callbacks it has invoked, the promises it has created (a promise is known by its position), the rejections in the
  order in which they happened, the timers that are set (promise, manager, identifier) and
  the calls of \<^verbatim>\<open>bootstrap\<close> whose continuation is registered.
\<close>

record client =
  connection :: "rotondeConnection option"
  superseded :: "rotondeConnection list"
  localDefinitions :: definitionStores
  remoteDefinitions :: definitionStores
  eventHandlers :: "callback handlerManager"
  actionHandlers :: "callback handlerManager"
  definitionHandlers :: "callback handlerManager"
  unDefinitionHandlers :: "callback handlerManager"
  readyCallbacks :: "nat list"
  invoked :: "(nat \<times> payload) list"
  readyInvoked :: "nat list"
  promises :: "promise list"
  rejections :: "(nat \<times> string) list"
  timers :: "(nat \<times> manager \<times> string) list"
  bootstraps :: "bootstrapCall list"

definition newDefinitionStores :: definitionStores where
  "newDefinitionStores = \<lparr>action_store = newDefinitionsStore, event_store = newDefinitionsStore\<rparr>"

definition newClient :: client where
  "newClient =
     \<lparr>connection = None,
      superseded = [],
      localDefinitions = newDefinitionStores,
      remoteDefinitions = newDefinitionStores,
      eventHandlers = newHandlerManager,
      actionHandlers = newHandlerManager,
      definitionHandlers = newHandlerManager,
      unDefinitionHandlers = newHandlerManager,
      readyCallbacks = [],
      invoked = [], readyInvoked = [], promises = [], rejections = [], timers = [],
      bootstraps = []\<rparr>"

text \<open>\<^verbatim>\<open>stores[type]\<close>: \<^verbatim>\<open>undefined\<close> unless the type is one of the two keys.\<close>

definition stores_get :: "definitionStores \<Rightarrow> string \<Rightarrow> store option" where
  "stores_get ds type' =
     (if type' = ''action'' then Some (action_store ds)
      else if type' = ''event'' then Some (event_store ds) else None)"

definition stores_set :: "definitionStores \<Rightarrow> string \<Rightarrow> store \<Rightarrow> definitionStores" where
  "stores_set ds type' s =
     (if type' = ''action'' then ds\<lparr>action_store := s\<rparr>
      else if type' = ''event'' then ds\<lparr>event_store := s\<rparr> else ds)"

definition searchDefinitions :: "definitionStores \<Rightarrow> string \<Rightarrow> property list" where
  "searchDefinitions definitionsStore identifier' =
     lodash_compact [getDefinition (action_store definitionsStore) identifier',
                     getDefinition (event_store definitionsStore) identifier']"

text \<open>\<^verbatim>\<open>isConnected\<close> returns \<^verbatim>\<open>connection && connection.isConnected()\<close>: \<^verbatim>\<open>undefined\<close>
  without a connection, a boolean with one.\<close>

definition isConnected :: "client \<Rightarrow> bool option" where
  "isConnected c =
     (case connection c of None \<Rightarrow> None | Some k \<Rightarrow> Some (connection_isConnected k))"

fun truthy :: "bool option \<Rightarrow> bool" where
  "truthy None = False"
| "truthy (Some b) = b"

text \<open>A call \<^verbatim>\<open>connection.f(...)\<close>: a \<^verbatim>\<open>TypeError\<close> while \<^verbatim>\<open>connection\<close> is
  \<^verbatim>\<open>undefined\<close>.\<close>

definition on_connection ::
  "(rotondeConnection \<Rightarrow> error + rotondeConnection) \<Rightarrow> client \<Rightarrow> error + client" where
  "on_connection f c =
     (case connection c of
        None \<Rightarrow> Inl TypeError
      | Some k \<Rightarrow> (case f k of Inl e \<Rightarrow> Inl e | Inr k' \<Rightarrow> Inr (c\<lparr>connection := Some k'\<rparr>)))"

text \<open>The hooks of \<^verbatim>\<open>eventHandlers\<close>; the other three managers get \<^verbatim>\<open>function () {}\<close>.\<close>

definition eventHandlers_firstAdded :: "string \<Rightarrow> client \<Rightarrow> error + client" where
  "eventHandlers_firstAdded identifier' c =
     (if truthy (isConnected c) then on_connection (connection_sendSubscribe identifier') c
      else Inr c)"

definition eventHandlers_lastRemoved :: "string \<Rightarrow> client \<Rightarrow> error + client" where
  "eventHandlers_lastRemoved identifier' c =
     (if truthy (isConnected c) then on_connection (connection_sendUnsubscribe identifier') c
      else Inr c)"

fun manager_of :: "manager \<Rightarrow> client \<Rightarrow> callback handlerManager" where
  "manager_of EventHandlers c = eventHandlers c"
| "manager_of ActionHandlers c = actionHandlers c"
| "manager_of DefinitionHandlers c = definitionHandlers c"
| "manager_of UnDefinitionHandlers c = unDefinitionHandlers c"

fun manager_update :: "manager \<Rightarrow> callback handlerManager \<Rightarrow> client \<Rightarrow> client" where
  "manager_update EventHandlers m c = c\<lparr>eventHandlers := m\<rparr>"
| "manager_update ActionHandlers m c = c\<lparr>actionHandlers := m\<rparr>"
| "manager_update DefinitionHandlers m c = c\<lparr>definitionHandlers := m\<rparr>"
| "manager_update UnDefinitionHandlers m c = c\<lparr>unDefinitionHandlers := m\<rparr>"

text \<open>Settling a promise: only a pending promise changes.\<close>

definition promise_state :: "client \<Rightarrow> nat \<Rightarrow> promise" where
  "promise_state c n = (if n < length (promises c) then promises c ! n else Pending)"

definition resolve :: "nat \<Rightarrow> payload \<Rightarrow> client \<Rightarrow> client" where
  "resolve n v c =
     (if n < length (promises c) \<and> promises c ! n = Pending
      then c\<lparr>promises := (promises c)[n := Resolved v]\<rparr> else c)"

definition reject :: "nat \<Rightarrow> string \<Rightarrow> client \<Rightarrow> client" where
  "reject n r c =
     (if n < length (promises c) \<and> promises c ! n = Pending
      then c\<lparr>promises := (promises c)[n := Rejected r], rejections := rejections c @ [(n, r)]\<rparr>
      else c)"

definition clearTimeout :: "nat \<Rightarrow> client \<Rightarrow> client" where
  "clearTimeout n c = c\<lparr>timers := filter (\<lambda>t. fst t \<noteq> n) (timers c)\<rparr>"

text \<open>
  The effects of a call of a manager, carried out on the client: a user's callback is
  recorded; \<^verbatim>\<open>fn\<close> resolves its promise and clears its timer; the hooks are those the
  manager was built with.
\<close>

fun run_effect :: "manager \<Rightarrow> (callback, payload) effect \<Rightarrow> client \<Rightarrow> error + client" where
  "run_effect mn (Invoke (UserCallback n) param) c = Inr (c\<lparr>invoked := invoked c @ [(n, param)]\<rparr>)"
| "run_effect mn (Invoke (PromiseFn n) param) c = Inr (clearTimeout n (resolve n param c))"
| "run_effect EventHandlers (FirstAdded identifier') c = eventHandlers_firstAdded identifier' c"
| "run_effect EventHandlers (LastRemoved identifier') c = eventHandlers_lastRemoved identifier' c"
| "run_effect mn (FirstAdded identifier') c = Inr c"
| "run_effect mn (LastRemoved identifier') c = Inr c"

fun run_effects :: "manager \<Rightarrow> (callback, payload) effect list \<Rightarrow> client \<Rightarrow> error + client" where
  "run_effects mn [] c = Inr c"
| "run_effects mn (e # es) c =
     (case run_effect mn e c of Inl x \<Rightarrow> Inl x | Inr c' \<Rightarrow> run_effects mn es c')"

definition on_manager ::
  "manager \<Rightarrow> ((callback, payload) hm_state \<Rightarrow> error + (callback, payload) hm_state) \<Rightarrow>
   client \<Rightarrow> error + client" where
  "on_manager mn f c =
     (case f (manager_of mn c, []) of
        Inl e \<Rightarrow> Inl e
      | Inr (m, es) \<Rightarrow> run_effects mn es (manager_update mn m c))"

text \<open>
  \<^verbatim>\<open>makePromise\<close> of the manager \<open>mn\<close>: the executor of the promise runs at once; it attaches
  \<^verbatim>\<open>fn\<close> for one call and, unless \<^verbatim>\<open>timeout\<close> is falsy (0 here, which also stands for
  a call without \<^verbatim>\<open>timeout\<close>), sets the timer. The result is the new promise.
\<close>

definition makePromise :: "manager \<Rightarrow> string \<Rightarrow> nat \<Rightarrow> client \<Rightarrow> error + nat \<times> client" where
  "makePromise mn identifier' timeout c =
     (let n = length (promises c);
          c1 = c\<lparr>promises := promises c @ [Pending]\<rparr>
      in case on_manager mn (\<lambda>st. Inr (attachOnce identifier' (PromiseFn n) st)) c1 of
           Inl e \<Rightarrow> Inl e
         | Inr c2 \<Rightarrow>
             if timeout = 0 then Inr (n, c2)
             else Inr (n, c2\<lparr>timers := timers c2 @ [(n, mn, identifier')]\<rparr>))"

text \<open>The function given to \<^verbatim>\<open>setTimeout\<close> runs when the timer of promise \<open>n\<close> expires;
  a timer that is not set (never set, cleared, or expired before) does not expire.\<close>

definition timer_expires :: "nat \<Rightarrow> client \<Rightarrow> error + client" where
  "timer_expires n c =
     (case find (\<lambda>t. fst t = n) (timers c) of
        None \<Rightarrow> Inr c
      | Some (n', mn, identifier') \<Rightarrow>
          (case on_manager mn (detach identifier' (PromiseFn n)) (clearTimeout n c) of
             Inl e \<Rightarrow> Inl e
           | Inr c1 \<Rightarrow> Inr (reject n (''time out '' @ identifier') c1)))"

text \<open>\<^verbatim>\<open>Promise.all\<close> of the promises \<open>ps\<close>: rejected with the reason of the member that was
  rejected first, resolved with all values once every member is resolved.\<close>

datatype promise_all = AllPending | AllResolved "payload list" | AllRejected string

fun resolved_values :: "promise list \<Rightarrow> payload list option" where
  "resolved_values [] = Some []"
| "resolved_values (Resolved v # ps) =
     (case resolved_values ps of None \<Rightarrow> None | Some vs \<Rightarrow> Some (v # vs))"
| "resolved_values (p # ps) = None"

definition Promise_all :: "client \<Rightarrow> nat list \<Rightarrow> promise_all" where
  "Promise_all c ps =
     (case find (\<lambda>r. fst r \<in> set ps) (rejections c) of
        Some (n, reason) \<Rightarrow> AllRejected reason
      | None \<Rightarrow>
          (case resolved_values (map (promise_state c) ps) of
             Some vs \<Rightarrow> AllResolved vs
           | None \<Rightarrow> AllPending))"

fun makePromises :: "manager \<Rightarrow> string list \<Rightarrow> nat \<Rightarrow> client \<Rightarrow> error + nat list \<times> client" where
  "makePromises mn [] timeout c = Inr ([], c)"
| "makePromises mn (identifier' # identifiers) timeout c =
     (case makePromise mn identifier' timeout c of
        Inl e \<Rightarrow> Inl e
      | Inr (n, c1) \<Rightarrow>
          (case makePromises mn identifiers timeout c1 of
             Inl e \<Rightarrow> Inl e
           | Inr (ns, c2) \<Rightarrow> Inr (n # ns, c2)))"

text \<open>\<^verbatim>\<open>requireDefinitions\<close>: the promises it makes; what it returns is their
  \<^verbatim>\<open>Promise.all\<close>.\<close>

definition requireDefinitions :: "string list \<Rightarrow> nat \<Rightarrow> client \<Rightarrow> error + nat list \<times> client" where
  "requireDefinitions identifiers timeout c = makePromises DefinitionHandlers identifiers timeout c"

definition getRemoteDefinition :: "string \<Rightarrow> string \<Rightarrow> client \<Rightarrow> error + property option" where
  "getRemoteDefinition type' identifier' c =
     (case stores_get (remoteDefinitions c) type' of
        None \<Rightarrow> Inl TypeError
      | Some s \<Rightarrow> Inr (getDefinition s identifier'))"

definition getLocalDefinition :: "string \<Rightarrow> string \<Rightarrow> client \<Rightarrow> error + property option" where
  "getLocalDefinition type' identifier' c =
     (case stores_get (localDefinitions c) type' of
        None \<Rightarrow> Inl TypeError
      | Some s \<Rightarrow> Inr (getDefinition s identifier'))"

definition addLocalDefinition :: "string \<Rightarrow> string \<Rightarrow> field list \<Rightarrow> client \<Rightarrow> error + client" where
  "addLocalDefinition type' identifier' fields' c =
     (let dn = \<lparr>d_identifier = identifier', d_type = type', d_fields = fields'\<rparr>
      in case stores_get (localDefinitions c) type' of
           None \<Rightarrow> Inl TypeError
         | Some s \<Rightarrow>
             (case addDefinition dn s of (dn', s') \<Rightarrow>
                (let c1 = c\<lparr>localDefinitions := stores_set (localDefinitions c) type' s'\<rparr>
                 in if truthy (isConnected c1) then on_connection (connection_sendDefinition dn') c1
                    else Inr c1)))"

definition removeLocalDefinition :: "string \<Rightarrow> string \<Rightarrow> client \<Rightarrow> error + client" where
  "removeLocalDefinition type' identifier' c =
     (case stores_get (localDefinitions c) type' of
        None \<Rightarrow> Inl TypeError
      | Some s \<Rightarrow>
          (case getDefinition s identifier' of
             None \<Rightarrow> Inr c
           | Some dn \<Rightarrow>
               (let c1 = c\<lparr>localDefinitions :=
                            stores_set (localDefinitions c) type' (removeDefinition identifier' s)\<rparr>
                in if truthy (isConnected c1) then on_connection (connection_sendUnDefinition dn) c1
                   else Inr c1)))"

text \<open>The function \<^verbatim>\<open>ready\<close> that \<^verbatim>\<open>connect\<close> gives to the connection.\<close>

fun each_sendSubscribe :: "string list \<Rightarrow> client \<Rightarrow> error + client" where
  "each_sendSubscribe [] c = Inr c"
| "each_sendSubscribe (identifier' # identifiers) c =
     (case on_connection (connection_sendSubscribe identifier') c of
        Inl e \<Rightarrow> Inl e
      | Inr c' \<Rightarrow> each_sendSubscribe identifiers c')"

fun forEach_sendDefinition :: "defn list \<Rightarrow> client \<Rightarrow> error + client" where
  "forEach_sendDefinition [] c = Inr c"
| "forEach_sendDefinition (dn # dns) c =
     (case on_connection (connection_sendDefinition dn) c of
        Inl e \<Rightarrow> Inl e
      | Inr c' \<Rightarrow> forEach_sendDefinition dns c')"

fun forEach_readyCallback :: "nat list \<Rightarrow> client \<Rightarrow> client" where
  "forEach_readyCallback [] c = c"
| "forEach_readyCallback (readyCallback # cbs) c =
     forEach_readyCallback cbs (c\<lparr>readyInvoked := readyInvoked c @ [readyCallback]\<rparr>)"

definition ready :: "client \<Rightarrow> error + client" where
  "ready c =
     (let c1 = forEach_readyCallback (readyCallbacks c) c
      in case each_sendSubscribe (registeredIdentifiers (eventHandlers c1)) c1 of
           Inl e \<Rightarrow> Inl e
         | Inr c2 \<Rightarrow>
             (case forEach_sendDefinition (definitions (action_store (localDefinitions c2))) c2 of
                Inl e \<Rightarrow> Inl e
              | Inr c3 \<Rightarrow>
                  forEach_sendDefinition (definitions (event_store (localDefinitions c3))) c3))"

definition connect :: "client \<Rightarrow> client" where
  "connect c =
     c\<lparr>superseded := superseded c @ (case connection c of None \<Rightarrow> [] | Some k \<Rightarrow> [k]),
       connection := Some newRotondeConnection\<rparr>"

text \<open>
  \<^verbatim>\<open>socket.onopen\<close> of a connection sets the \<^verbatim>\<open>connected\<close> of that connection and
  calls \<^verbatim>\<open>ready\<close>, which works on the connection that the variable \<^verbatim>\<open>connection\<close>
  holds then. The channel that opens is the one created last or an earlier one, known by
  its position in \<open>superseded\<close>. \<open>channel_opens\<close> sets the flag; it is \<open>None\<close> when there
  is no such socket, and an input of a run that names such a socket ends the run.
\<close>

datatype channel = Latest | Earlier nat

definition channel_opens :: "channel \<Rightarrow> client \<Rightarrow> client option" where
  "channel_opens ch c =
     (case ch of
        Latest \<Rightarrow>
          (case connection c of
             None \<Rightarrow> None
           | Some k \<Rightarrow> Some (c\<lparr>connection := Some (k\<lparr>connected := True\<rparr>)\<rparr>))
      | Earlier n \<Rightarrow>
          if n < length (superseded c)
          then Some (c\<lparr>superseded := (superseded c)[n := (superseded c ! n)\<lparr>connected := True\<rparr>]\<rparr>)
          else None)"

definition channel_onopen :: "channel \<Rightarrow> client \<Rightarrow> error + client" where
  "channel_onopen ch c =
     (case channel_opens ch c of
        None \<Rightarrow> Inl TypeError
      | Some c0 \<Rightarrow> ready c0)"

text \<open>\<^verbatim>\<open>socket.onopen\<close> of the connection that \<^verbatim>\<open>connection\<close> holds.\<close>

definition socket_onopen :: "client \<Rightarrow> error + client" where
  "socket_onopen c = channel_onopen Latest c"

definition onReady :: "nat \<Rightarrow> client \<Rightarrow> client" where
  "onReady callback c =
     (if truthy (isConnected c) then c\<lparr>readyInvoked := readyInvoked c @ [callback]\<rparr>
      else c\<lparr>readyCallbacks := readyCallbacks c @ [callback]\<rparr>)"

text \<open>The identifier that \<^verbatim>\<open>payload.identifier\<close> reads, and \<^verbatim>\<open>payload.type\<close>, which only
  a definition has. An identifier that is \<^verbatim>\<open>undefined\<close> reads, as a property key, the
  property named \<^verbatim>\<open>undefined\<close>.\<close>

fun payload_identifier :: "payload \<Rightarrow> string" where
  "payload_identifier (IdentifierData identifier' data) = identifier'"
| "payload_identifier (DefinitionObject dn) = d_identifier dn"
| "payload_identifier (IdentifierOnly identifier') = identifier'"
| "payload_identifier InheritedValue = ''undefined''"

fun payload_type :: "payload \<Rightarrow> string option" where
  "payload_type (DefinitionObject dn) = Some (d_type dn)"
| "payload_type p = None"

text \<open>\<^verbatim>\<open>handleMessage\<close>, from the decoded packet on. \<^verbatim>\<open>stores[undefined]\<close> is
  \<^verbatim>\<open>undefined\<close>, so a \<^verbatim>\<open>def\<close> or \<^verbatim>\<open>undef\<close> packet whose payload has no usable
  \<^verbatim>\<open>type\<close> throws.\<close>

definition handleMessage :: "packet \<Rightarrow> client \<Rightarrow> error + client" where
  "handleMessage pk c =
     (case connection c of
        None \<Rightarrow> Inl TypeError
      | Some k \<Rightarrow>
          if p_type pk = EVENT then
            on_manager EventHandlers
              (callHandlers (payload_identifier (p_payload pk)) (p_payload pk)) c
          else if p_type pk = ACTION then
            on_manager ActionHandlers
              (callHandlers (payload_identifier (p_payload pk)) (p_payload pk)) c
          else if p_type pk = DEFINITION then
            (case p_payload pk of
               DefinitionObject dn \<Rightarrow>
                 (case stores_get (remoteDefinitions c) (d_type dn) of
                    None \<Rightarrow> Inl TypeError
                  | Some s \<Rightarrow>
                      (case addDefinition dn s of (dn', s') \<Rightarrow>
                         (case on_manager DefinitionHandlers
                                 (callHandlers (d_identifier dn') (DefinitionObject dn'))
                                 (c\<lparr>remoteDefinitions :=
                                      stores_set (remoteDefinitions c) (d_type dn) s'\<rparr>) of
                            Inl e \<Rightarrow> Inl e
                          | Inr c2 \<Rightarrow>
                              if d_type dn' = ''event'' then
                                (if d_identifier dn' \<in> set (registeredIdentifiers (eventHandlers c2))
                                 then on_connection (connection_sendSubscribe (d_identifier dn')) c2
                                 else Inr c2)
                              else Inr c2)))
             | other \<Rightarrow> Inl TypeError)
          else if p_type pk = UNDEFINITION then
            (case p_payload pk of
               DefinitionObject dn \<Rightarrow>
                 (case stores_get (remoteDefinitions c) (d_type dn) of
                    None \<Rightarrow> Inl TypeError
                  | Some s \<Rightarrow>
                      on_manager UnDefinitionHandlers
                        (callHandlers (d_identifier dn) (DefinitionObject dn))
                        (c\<lparr>remoteDefinitions :=
                             stores_set (remoteDefinitions c) (d_type dn)
                               (removeDefinition (d_identifier dn) s)\<rparr>))
             | other \<Rightarrow> Inl TypeError)
          else Inr c)"

text \<open>\<^verbatim>\<open>sendEvent\<close> and \<^verbatim>\<open>sendAction\<close> of the object that \<^verbatim>\<open>module.exports\<close> returns.\<close>

definition sendEvent :: "string \<Rightarrow> string \<Rightarrow> client \<Rightarrow> error + client" where
  "sendEvent identifier' data c = on_connection (connection_sendEvent identifier' data) c"

definition sendAction :: "string \<Rightarrow> string \<Rightarrow> client \<Rightarrow> error + client" where
  "sendAction identifier' data c = on_connection (connection_sendAction identifier' data) c"

text \<open>
  \<^verbatim>\<open>bootstrap\<close>. \<open>actions\<close> is the object of that name, its keys in order. The local
  function \<^verbatim>\<open>promises\<close> makes the event promises and then sends the actions; when a send
  throws, what was done before stays done, so its result carries the client in both cases.
\<close>

definition missingDefs :: "(string \<times> string) list \<Rightarrow> string list \<Rightarrow> string list \<Rightarrow> client \<Rightarrow> string list" where
  "missingDefs actions events defs c =
     lodash_uniq
       (filter (\<lambda>identifier'. \<not> length (searchDefinitions (remoteDefinitions c) identifier') > 0)
          (lodash_uniq (map fst actions @ events @ defs) (\<lambda>x. x)))
       (\<lambda>x. x)"

fun forEach_sendAction :: "(string \<times> string) list \<Rightarrow> client \<Rightarrow> error option \<times> client" where
  "forEach_sendAction [] c = (None, c)"
| "forEach_sendAction ((identifier', action) # actions) c =
     (case on_connection (connection_sendAction identifier' action) c of
        Inl e \<Rightarrow> (Some e, c)
      | Inr c' \<Rightarrow> forEach_sendAction actions c')"

definition bootstrap_promises ::
  "(string \<times> string) list \<Rightarrow> string list \<Rightarrow> nat \<Rightarrow> client \<Rightarrow> (error + nat list) \<times> client" where
  "bootstrap_promises actions events timeout c =
     (case makePromises EventHandlers events timeout c of
        Inl e \<Rightarrow> (Inl e, c)
      | Inr (eventPromises, c1) \<Rightarrow>
          (case forEach_sendAction actions c1 of
             (Some e, c2) \<Rightarrow> (Inl e, c2)
           | (None, c2) \<Rightarrow> (Inr eventPromises, c2)))"

text \<open>
  The call itself. With definitions missing it makes the promises of
  \<^verbatim>\<open>requireDefinitions\<close> and registers the continuation; otherwise it runs
  \<^verbatim>\<open>promises()\<close> at once, and an exception of that leaves \<^verbatim>\<open>bootstrap\<close>. The promise
  that \<^verbatim>\<open>bootstrap\<close> returns is known by the position of the call in \<open>bootstraps\<close>.
\<close>

definition bootstrap ::
  "(string \<times> string) list \<Rightarrow> string list \<Rightarrow> string list \<Rightarrow> nat \<Rightarrow> client \<Rightarrow> error + client" where
  "bootstrap actions events defs timeout c =
     (let missing = missingDefs actions events defs c;
          call = \<lparr>b_actions = actions, b_events = events, b_timeout = timeout,
                  b_required = [], b_stage = AwaitingDefinitions\<rparr>
      in if length missing > 0 then
           (case requireDefinitions missing timeout c of
              Inl e \<Rightarrow> Inl e
            | Inr (required, c1) \<Rightarrow>
                Inr (c1\<lparr>bootstraps := bootstraps c1 @ [call\<lparr>b_required := required\<rparr>]\<rparr>))
         else
           (case bootstrap_promises actions events timeout c of
              (Inl e, c1) \<Rightarrow> Inl e
            | (Inr eventPromises, c1) \<Rightarrow>
                Inr (c1\<lparr>bootstraps := bootstraps c1 @ [call\<lparr>b_stage := AwaitingEvents eventPromises\<rparr>]\<rparr>)))"

text \<open>
  The continuation of the call at position \<open>j\<close> runs once, when the \<^verbatim>\<open>Promise.all\<close> of
  \<^verbatim>\<open>requireDefinitions\<close> is resolved; it does not run when that is rejected.
\<close>

definition continue_bootstrap :: "nat \<Rightarrow> client \<Rightarrow> client" where
  "continue_bootstrap j c =
     (if j < length (bootstraps c) then
        (let call = bootstraps c ! j
         in case b_stage call of
              AwaitingDefinitions \<Rightarrow>
                (case Promise_all c (b_required call) of
                   AllResolved vs \<Rightarrow>
                     (case bootstrap_promises (b_actions call) (b_events call) (b_timeout call) c of
                        (Inl e, c1) \<Rightarrow>
                          c1\<lparr>bootstraps := (bootstraps c1)[j := call\<lparr>b_stage := Thrown e\<rparr>]\<rparr>
                      | (Inr eventPromises, c1) \<Rightarrow>
                          c1\<lparr>bootstraps :=
                               (bootstraps c1)[j := call\<lparr>b_stage := AwaitingEvents eventPromises\<rparr>]\<rparr>)
                 | other \<Rightarrow> c)
            | other \<Rightarrow> c)
      else c)"

text \<open>The state of the promise that the call at position \<open>j\<close> returned.\<close>

datatype bootstrap_result =
  BootstrapPending | BootstrapResolved "payload list" | BootstrapRejected string | BootstrapThrew error

definition bootstrap_promise :: "client \<Rightarrow> nat \<Rightarrow> bootstrap_result" where
  "bootstrap_promise c j =
     (if j < length (bootstraps c) then
        (let call = bootstraps c ! j
         in case b_stage call of
              AwaitingDefinitions \<Rightarrow>
                (case Promise_all c (b_required call) of
                   AllRejected reason \<Rightarrow> BootstrapRejected reason
                 | other \<Rightarrow> BootstrapPending)
            | AwaitingEvents eventPromises \<Rightarrow>
                (case Promise_all c eventPromises of
                   AllRejected reason \<Rightarrow> BootstrapRejected reason
                 | AllResolved vs \<Rightarrow> BootstrapResolved vs
                 | AllPending \<Rightarrow> BootstrapPending)
            | Thrown e \<Rightarrow> BootstrapThrew e)
      else BootstrapPending)"

section \<open>Runs of a client\<close>

text \<open>
  What happens to a client, one thing at a time: a call of the object that
  \<^verbatim>\<open>module.exports\<close> returns (its handler managers included, with a user's callback),
  a socket opening (that of the connection created last, or that of an earlier one), a
  message arriving (already decoded), a timer expiring. After each,
  the promise library runs the continuations that have become due, before anything else
  happens. A run stops at the first exception that nothing catches.
\<close>

datatype input =
  Connect
| SocketOpen
| EarlierSocketOpen nat
| Message packet
| TimerExpires nat
| OnReady nat
| AddLocalDefinition string string "field list"
| RemoveLocalDefinition string string
| SendEvent string string
| SendAction string string
| Attach manager string nat "int option"
| AttachOnce manager string nat
| Detach manager string nat
| DetachAll manager
| CallHandlers manager string payload
| MakePromise manager string nat
| RequireDefinitions "string list" nat
| Bootstrap "(string \<times> string) list" "string list" "string list" nat

fun perform :: "input \<Rightarrow> client \<Rightarrow> error + client" where
  "perform Connect c = Inr (connect c)"
| "perform SocketOpen c = socket_onopen c"
| "perform (EarlierSocketOpen n) c = channel_onopen (Earlier n) c"
| "perform (Message pk) c = handleMessage pk c"
| "perform (TimerExpires n) c = timer_expires n c"
| "perform (OnReady callback) c = Inr (onReady callback c)"
| "perform (AddLocalDefinition type' identifier' fields') c =
     addLocalDefinition type' identifier' fields' c"
| "perform (RemoveLocalDefinition type' identifier') c = removeLocalDefinition type' identifier' c"
| "perform (SendEvent identifier' data) c = sendEvent identifier' data c"
| "perform (SendAction identifier' data) c = sendAction identifier' data c"
| "perform (Attach mn identifier' n callCount) c =
     on_manager mn (\<lambda>st. Inr (attach identifier' (UserCallback n) callCount st)) c"
| "perform (AttachOnce mn identifier' n) c =
     on_manager mn (\<lambda>st. Inr (attachOnce identifier' (UserCallback n) st)) c"
| "perform (Detach mn identifier' n) c = on_manager mn (detach identifier' (UserCallback n)) c"
| "perform (DetachAll mn) c = on_manager mn detachAll c"
| "perform (CallHandlers mn identifier' param) c = on_manager mn (callHandlers identifier' param) c"
| "perform (MakePromise mn identifier' timeout) c =
     (case makePromise mn identifier' timeout c of Inl e \<Rightarrow> Inl e | Inr (n, c') \<Rightarrow> Inr c')"
| "perform (RequireDefinitions identifiers timeout) c =
     (case requireDefinitions identifiers timeout c of Inl e \<Rightarrow> Inl e | Inr (ns, c') \<Rightarrow> Inr c')"
| "perform (Bootstrap actions events defs timeout) c = bootstrap actions events defs timeout c"

definition run_continuations :: "client \<Rightarrow> client" where
  "run_continuations c = fold continue_bootstrap [0..<length (bootstraps c)] c"

definition step :: "input \<Rightarrow> client \<Rightarrow> error + client" where
  "step i c = (case perform i c of Inl e \<Rightarrow> Inl e | Inr c' \<Rightarrow> Inr (run_continuations c'))"

fun run :: "input list \<Rightarrow> client \<Rightarrow> error + client" where
  "run [] c = Inr c"
| "run (i # is) c = (case step i c of Inl e \<Rightarrow> Inl e | Inr c' \<Rightarrow> run is c')"

text \<open>What a step of a run may do to the promises: make new ones and settle pending ones.
  A promise that is settled stays as it is.\<close>

definition settled_kept :: "client \<Rightarrow> client \<Rightarrow> bool" where
  "settled_kept c c' \<longleftrightarrow>
     length (promises c) \<le> length (promises c') \<and>
     (\<forall>n<length (promises c). promises c ! n \<noteq> Pending \<longrightarrow> promises c' ! n = promises c ! n)"

section \<open>Properties of the definitions store\<close>


subsection \<open>The lodash functions\<close>

lemma indexOf_from_absent: "v \<notin> set xs \<Longrightarrow> indexOf_from xs v i = -1"
  by (induction xs arbitrary: i) auto

lemma indexOf_string_in_objects: "indexOf_from (map JObject ds) (JString x) i = -1"
  by (rule indexOf_from_absent) auto

lemma indexOf_inherited_in_objects: "indexOf_from (map JObject ds) JInherited i = -1"
  by (rule indexOf_from_absent) auto

lemma indexOf_from_present:
  "v \<in> set xs \<Longrightarrow>
   \<exists>k<length xs. indexOf_from xs v i = i + int k \<and> xs ! k = v \<and> v \<notin> set (take k xs)"
proof (induction xs arbitrary: i)
  case Nil
  then show ?case by simp
next
  case (Cons x xs)
  show ?case
  proof (cases "x = v")
    case True
    then show ?thesis by (intro exI[of _ 0]) simp
  next
    case False
    with Cons.prems have "v \<in> set xs" by simp
    from Cons.IH[OF this, of "i + 1"] obtain k where
      k: "k < length xs" "indexOf_from xs v (i + 1) = i + 1 + int k" "xs ! k = v"
         "v \<notin> set (take k xs)"
      by blast
    with False show ?thesis by (intro exI[of _ "Suc k"]) simp
  qed
qed

lemma indexOf_stored:
  assumes "d \<in> set ds"
  shows "\<exists>k<length ds. lodash_indexOf (map JObject ds) (JObject d) = int k \<and> ds ! k = d"
proof -
  have "JObject d \<in> set (map JObject ds)" using assms by simp
  from indexOf_from_present[OF this, of 0] show ?thesis
    unfolding lodash_indexOf_def by auto
qed

lemma uniq_seen_dedup:
  "uniq_seen f_name seen xs = dedup_by_name (filter (\<lambda>g. f_name g \<notin> set seen) xs)"
proof (induction xs arbitrary: seen)
  case Nil
  then show ?case by simp
next
  case (Cons x xs)
  then show ?case by (simp add: conj_commute)
qed

lemma uniq_seen_union:
  "\<forall>y\<in>set seen'. f y \<in> set seen \<Longrightarrow>
   uniq_seen f seen (uniq_seen (\<lambda>x. x) seen' xs) = uniq_seen f seen xs"
  by (induction xs arbitrary: seen seen') auto

text \<open>The merge that \<^verbatim>\<open>addDefinition\<close> computes is the merge of the specification.\<close>

lemma merge_is_spec_merge:
  "lodash_uniq (lodash_union a b) f_name = spec_merge_fields a b"
  unfolding lodash_uniq_def lodash_union_def spec_merge_fields_def
  by (subst uniq_seen_union) (simp_all add: uniq_seen_dedup)

lemma fold_indexBy:
  "fold (\<lambda>x m. m(f x \<mapsto> x)) xs m = m ++ map_of (rev (map (\<lambda>x. (f x, x)) xs))"
  by (induction xs arbitrary: m) (auto simp: map_add_upd_left)

lemma indexBy_Some_iff:
  assumes "distinct (map f xs)"
  shows "lodash_indexBy xs f k = Some d \<longleftrightarrow> d \<in> set xs \<and> f d = k"
proof -
  have "distinct (map fst (rev (map (\<lambda>x. (f x, x)) xs)))"
    using assms by (simp add: rev_map[symmetric] comp_def)
  then show ?thesis
    unfolding lodash_indexBy_def fold_indexBy
    by (auto simp: map_of_eq_Some_iff)
qed

lemma indexBy_None_iff: "lodash_indexBy xs f k = None \<longleftrightarrow> k \<notin> f ` set xs"
  unfolding lodash_indexBy_def fold_indexBy
  by (auto simp: map_of_eq_None_iff image_iff)

subsection \<open>What the merge of the specification is\<close>

lemma dedup_by_name_append:
  "dedup_by_name (a @ b) =
   dedup_by_name a @ dedup_by_name (filter (\<lambda>g. f_name g \<notin> f_name ` set a) b)"
proof (induction a arbitrary: b rule: dedup_by_name.induct)
  case 1
  show ?case by simp
next
  case (2 f fs)
  let ?P = "\<lambda>g. f_name g \<noteq> f_name f"
  have eq: "filter (\<lambda>g. f_name g \<notin> f_name ` set (filter ?P fs)) (filter ?P b) =
            filter (\<lambda>g. f_name g \<notin> f_name ` set (f # fs)) b"
    unfolding filter_filter by (rule filter_cong) auto
  have "dedup_by_name ((f # fs) @ b) = f # dedup_by_name (filter ?P fs @ filter ?P b)"
    by simp
  also have "\<dots> = f # dedup_by_name (filter ?P fs) @
      dedup_by_name (filter (\<lambda>g. f_name g \<notin> f_name ` set (filter ?P fs)) (filter ?P b))"
    by (simp only: "2.IH"[of "filter ?P b"] append_Cons)
  also have "\<dots> = dedup_by_name (f # fs) @
      dedup_by_name (filter (\<lambda>g. f_name g \<notin> f_name ` set (f # fs)) b)"
    by (simp only: eq dedup_by_name.simps append_Cons)
  finally show ?case .
qed

lemma dedup_by_name_distinct: "distinct (map f_name fs) \<Longrightarrow> dedup_by_name fs = fs"
proof (induction fs)
  case Nil
  show ?case by simp
next
  case (Cons f fs)
  then have "filter (\<lambda>g. f_name g \<noteq> f_name f) fs = fs"
    by (force simp: filter_id_conv image_iff)
  with Cons show ?case by simp
qed




text \<open>For two field lists without repeated names, the merge is the first list followed by
  the fields of the second whose names the first does not have.\<close>

lemma spec_merge_fields_distinct:
  assumes "distinct (map f_name a)" "distinct (map f_name b)"
  shows "spec_merge_fields a b = a @ filter (\<lambda>g. f_name g \<notin> f_name ` set a) b"
proof -
  have "distinct (map f_name (filter (\<lambda>g. f_name g \<notin> f_name ` set a) b))"
    using assms(2) by (simp add: distinct_map_filter)
  then show ?thesis
    using assms(1) by (simp add: spec_merge_fields_def dedup_by_name_append dedup_by_name_distinct)
qed

subsection \<open>\<^verbatim>\<open>addDefinition\<close>\<close>

lemma filter_update_unique:
  assumes "distinct (map f xs)" "k < length xs" "f (xs ! k) = a" "f v = a"
  shows "filter (\<lambda>x. f x = a) (xs[k := v]) = [v]"
proof -
  have split: "xs = take k xs @ xs ! k # drop (Suc k) xs"
    using assms(2) by (rule id_take_nth_drop)
  have "distinct (map f (take k xs @ xs ! k # drop (Suc k) xs))"
    using assms(1) split by simp
  then have "a \<notin> f ` set (take k xs)" "a \<notin> f ` set (drop (Suc k) xs)"
    using assms(3) by auto
  then have "filter (\<lambda>x. f x = a) (take k xs) = []" "filter (\<lambda>x. f x = a) (drop (Suc k) xs) = []"
    by (auto simp: filter_empty_conv)
  then show ?thesis
    using assms(2,4) by (simp add: upd_conv_take_nth_drop)
qed

lemma map_update_same:
  assumes "k < length xs" "f (xs ! k) = f v"
  shows "map f (xs[k := v]) = map f xs"
  using assms by (simp add: map_update list_update_same_conv)

lemma store_ok_new: "store_ok newDefinitionsStore"
  by (simp add: store_ok_def newDefinitionsStore_def lodash_indexBy_def)

lemma object_get_own:
  "key \<notin> set Object_prototype_names \<Longrightarrow> object_get own key = map_option Stored (own key)"
  by (simp add: object_get_def split: option.splits)

lemma object_get_inherited:
  "key \<in> set Object_prototype_names \<Longrightarrow> own key = None \<Longrightarrow> object_get own key = Some Inherited"
  by (simp add: object_get_def)

lemma addDefinition_new:
  assumes none: "getDefinition s (d_identifier dn) = None"
  shows "addDefinition dn s = (dn, \<lparr>definitions = definitions s @ [dn],
           definitionsByIdentifier = lodash_indexBy (definitions s @ [dn]) d_identifier\<rparr>)"
  using none by (simp add: addDefinition_def getDefinition_def Let_def)

text \<open>An identifier that is an inherited name and not stored: the definition is not stored.\<close>

lemma addDefinition_inherited:
  assumes "getDefinition s (d_identifier dn) = Some Inherited"
  shows "addDefinition dn s =
     (dn\<lparr>d_fields := spec_merge_fields [] (d_fields dn)\<rparr>,
      \<lparr>definitions = definitions s,
       definitionsByIdentifier = lodash_indexBy (definitions s) d_identifier\<rparr>)"
  using assms
  by (simp add: addDefinition_def getDefinition_def Let_def lodash_indexOf_def
        indexOf_inherited_in_objects array_assign_def merge_is_spec_merge)

lemma addDefinition_known:
  assumes ok: "store_ok s" and some: "getDefinition s (d_identifier dn) = Some (Stored d)"
  shows "\<exists>k<length (definitions s). definitions s ! k = d \<and> d_identifier d = d_identifier dn \<and>
           addDefinition dn s =
             (dn\<lparr>d_fields := spec_merge_fields (d_fields d) (d_fields dn)\<rparr>,
              \<lparr>definitions =
                 (definitions s)[k := dn\<lparr>d_fields := spec_merge_fields (d_fields d) (d_fields dn)\<rparr>],
               definitionsByIdentifier =
                 lodash_indexBy
                   ((definitions s)[k := dn\<lparr>d_fields := spec_merge_fields (d_fields d) (d_fields dn)\<rparr>])
                   d_identifier\<rparr>)"
proof -
  from some have own: "definitionsByIdentifier s (d_identifier dn) = Some d"
    by (auto simp: getDefinition_def object_get_def split: option.splits if_splits)
  with ok have d: "d \<in> set (definitions s)" "d_identifier d = d_identifier dn"
    by (auto simp: store_ok_def indexBy_Some_iff)
  from indexOf_stored[OF d(1)] obtain k where
    k: "k < length (definitions s)"
       "lodash_indexOf (map JObject (definitions s)) (JObject d) = int k"
       "definitions s ! k = d" by blast
  show ?thesis
    using some k d(2)
    by (intro exI[of _ k])
       (simp add: addDefinition_def getDefinition_def merge_is_spec_merge array_assign_def Let_def)
qed

text \<open>
  What one \<^verbatim>\<open>addDefinition\<close> does to a store in a state the program keeps, for an
  identifier that is not an inherited name: the state is kept, the identifier has exactly
  one stored definition, and that is the given definition with, for a known identifier,
  the stored fields merged in front of its own.
\<close>

lemma addDefinition_ok:
  assumes ok: "store_ok s" and add: "addDefinition dn s = (dn', s')"
    and own: "d_identifier dn \<notin> set Object_prototype_names"
  shows "store_ok s'"
    and "definitionsByIdentifier s' (d_identifier dn) = Some dn'"
    and "filter (\<lambda>d. d_identifier d = d_identifier dn) (definitions s') = [dn']"
    and "dn' = (case definitionsByIdentifier s (d_identifier dn) of
                  None \<Rightarrow> dn
                | Some d \<Rightarrow> dn\<lparr>d_fields := spec_merge_fields (d_fields d) (d_fields dn)\<rparr>)"
proof -
  have get: "getDefinition s (d_identifier dn) =
             map_option Stored (definitionsByIdentifier s (d_identifier dn))"
    using own by (simp add: getDefinition_def object_get_own)
  have all: "store_ok s' \<and> definitionsByIdentifier s' (d_identifier dn) = Some dn' \<and>
    filter (\<lambda>d. d_identifier d = d_identifier dn) (definitions s') = [dn'] \<and>
    dn' = (case definitionsByIdentifier s (d_identifier dn) of
                  None \<Rightarrow> dn
                | Some d \<Rightarrow> dn\<lparr>d_fields := spec_merge_fields (d_fields d) (d_fields dn)\<rparr>)"
  proof (cases "definitionsByIdentifier s (d_identifier dn)")
    case None
    with get have gn: "getDefinition s (d_identifier dn) = None" by simp
    from addDefinition_new[OF gn] add
    have eq: "dn' = dn" "definitions s' = definitions s @ [dn]"
      "definitionsByIdentifier s' = lodash_indexBy (definitions s @ [dn]) d_identifier"
      by auto
    from None ok have fresh: "d_identifier dn \<notin> d_identifier ` set (definitions s)"
      by (simp add: store_ok_def indexBy_None_iff)
    have dist: "distinct (map d_identifier (definitions s @ [dn]))"
      using ok fresh by (simp add: store_ok_def)
    have inh: "\<forall>d\<in>set (definitions s @ [dn]). d_identifier d \<notin> set Object_prototype_names"
      using ok own by (auto simp: store_ok_def)
    have "filter (\<lambda>d. d_identifier d = d_identifier dn) (definitions s) = []"
      using fresh by (force simp: filter_empty_conv image_iff)
    then show ?thesis
      using eq dist inh None by (simp add: store_ok_def indexBy_Some_iff)
  next
    case (Some d)
    with get have gs: "getDefinition s (d_identifier dn) = Some (Stored d)" by simp
    let ?m = "dn\<lparr>d_fields := spec_merge_fields (d_fields d) (d_fields dn)\<rparr>"
    from addDefinition_known[OF ok gs] add obtain k where
      k: "k < length (definitions s)" "definitions s ! k = d" "d_identifier d = d_identifier dn"
      and eq: "dn' = ?m" "definitions s' = (definitions s)[k := ?m]"
        "definitionsByIdentifier s' = lodash_indexBy ((definitions s)[k := ?m]) d_identifier"
      by auto
    have ids: "map d_identifier ((definitions s)[k := ?m]) = map d_identifier (definitions s)"
      using k by (intro map_update_same) simp_all
    have dist: "distinct (map d_identifier ((definitions s)[k := ?m]))"
      using ok ids by (simp add: store_ok_def)
    have img: "d_identifier ` set ((definitions s)[k := ?m]) = d_identifier ` set (definitions s)"
      using ids by (metis set_map)
    have inh: "\<forall>d\<in>set ((definitions s)[k := ?m]). d_identifier d \<notin> set Object_prototype_names"
    proof
      fix x assume "x \<in> set ((definitions s)[k := ?m])"
      then have "d_identifier x \<in> d_identifier ` set (definitions s)"
        using img by blast
      then obtain y where "y \<in> set (definitions s)" "d_identifier x = d_identifier y" by blast
      with ok show "d_identifier x \<notin> set Object_prototype_names"
        by (simp add: store_ok_def)
    qed
    have mem: "?m \<in> set ((definitions s)[k := ?m])"
      using k(1) by (simp add: set_update_memI)
    have flt: "filter (\<lambda>x. d_identifier x = d_identifier dn) ((definitions s)[k := ?m]) = [?m]"
      using ok k by (intro filter_update_unique) (simp_all add: store_ok_def)
    show ?thesis
      using eq dist inh mem flt Some by (simp add: store_ok_def indexBy_Some_iff)
  qed
  from all show "store_ok s'" by simp
  from all show "definitionsByIdentifier s' (d_identifier dn) = Some dn'" by simp
  from all show "filter (\<lambda>d. d_identifier d = d_identifier dn) (definitions s') = [dn']" by simp
  from all show "dn' = (case definitionsByIdentifier s (d_identifier dn) of
                  None \<Rightarrow> dn
                | Some d \<Rightarrow> dn\<lparr>d_fields := spec_merge_fields (d_fields d) (d_fields dn)\<rparr>)" by simp
qed

text \<open>A definition whose identifier is an inherited name leaves the list of the store as it
  is: the store of the program never holds such a definition.\<close>

lemma put_inherited:
  assumes ok: "store_ok s" and inh: "d_identifier dn \<in> set Object_prototype_names"
  shows "put dn s = s"
proof -
  have "d_identifier dn \<notin> d_identifier ` set (definitions s)"
    using ok inh by (auto simp: store_ok_def)
  then have "definitionsByIdentifier s (d_identifier dn) = None"
    using ok by (simp add: store_ok_def indexBy_None_iff)
  with inh have "getDefinition s (d_identifier dn) = Some Inherited"
    by (simp add: getDefinition_def object_get_inherited)
  from addDefinition_inherited[OF this] ok show ?thesis
    by (simp add: put_def store_ok_def)
qed

lemma store_ok_put: "store_ok s \<Longrightarrow> store_ok (put dn s)"
proof (cases "d_identifier dn \<in> set Object_prototype_names")
  case True
  assume "store_ok s"
  with True show ?thesis by (simp add: put_inherited)
next
  case False
  assume "store_ok s"
  from addDefinition_ok(1)[OF this _ False, of "fst (addDefinition dn s)" "snd (addDefinition dn s)"]
  show ?thesis by (simp add: put_def)
qed




subsection \<open>Identifiers a store knows\<close>

text \<open>An identifier that was never \<open>put\<close>, and is not an inherited name, is not found: the
  identifiers a store knows are among those of the definitions that were \<open>put\<close>.\<close>

lemma put_identifiers:
  assumes "store_ok s"
  shows "d_identifier ` set (definitions (put dn s)) \<subseteq>
         insert (d_identifier dn) (d_identifier ` set (definitions s))"
proof (cases "d_identifier dn \<in> set Object_prototype_names")
  case True
  with assms show ?thesis by (auto simp: put_inherited)
next
  case False
  from addDefinition_ok(3,4)[OF assms _ False, of "fst (addDefinition dn s)" "snd (addDefinition dn s)"]
  have flt: "filter (\<lambda>d. d_identifier d = d_identifier dn) (definitions (put dn s)) =
             [fst (addDefinition dn s)]"
    by (simp add: put_def)
  show ?thesis
  proof (cases "definitionsByIdentifier s (d_identifier dn)")
    case None
    with False have "getDefinition s (d_identifier dn) = None"
      by (simp add: getDefinition_def object_get_own)
    from addDefinition_new[OF this] show ?thesis by (auto simp: put_def)
  next
    case (Some d)
    with False have g: "getDefinition s (d_identifier dn) = Some (Stored d)"
      by (simp add: getDefinition_def object_get_own)
    let ?m = "dn\<lparr>d_fields := spec_merge_fields (d_fields d) (d_fields dn)\<rparr>"
    from addDefinition_known[OF assms g] obtain k where
      k: "k < length (definitions s)" "definitions s ! k = d" "d_identifier d = d_identifier dn"
      and eq: "definitions (put dn s) = (definitions s)[k := ?m]"
      by (auto simp: put_def)
    have "map d_identifier ((definitions s)[k := ?m]) = map d_identifier (definitions s)"
      using k by (intro map_update_same) simp_all
    then have "d_identifier ` set ((definitions s)[k := ?m]) = d_identifier ` set (definitions s)"
      by (metis set_map)
    with eq show ?thesis by auto
  qed
qed

lemma getDefinition_None_iff:
  assumes "store_ok s" "i \<notin> set Object_prototype_names"
  shows "getDefinition s i = None \<longleftrightarrow> i \<notin> d_identifier ` set (definitions s)"
  using assms by (simp add: getDefinition_def object_get_own store_ok_def indexBy_None_iff)

lemma fold_put_ok_identifiers:
  "store_ok s \<Longrightarrow>
   store_ok (fold put dns s) \<and>
   d_identifier ` set (definitions (fold put dns s)) \<subseteq>
     d_identifier ` set dns \<union> d_identifier ` set (definitions s)"
proof (induction dns arbitrary: s)
  case Nil
  then show ?case by simp
next
  case (Cons dn dns)
  from Cons.prems have ok: "store_ok (put dn s)" by (rule store_ok_put)
  from Cons.IH[OF ok] have ok': "store_ok (fold put dns (put dn s))"
    and sub: "d_identifier ` set (definitions (fold put dns (put dn s))) \<subseteq>
              d_identifier ` set dns \<union> d_identifier ` set (definitions (put dn s))"
    by simp_all
  from sub put_identifiers[OF Cons.prems, of dn]
  have "d_identifier ` set (definitions (fold put dns (put dn s))) \<subseteq>
        d_identifier ` set (dn # dns) \<union> d_identifier ` set (definitions s)"
    by (simp only: list.set image_insert) blast
  with ok' show ?case by simp
qed

lemma get_never_put_not_found:
  assumes "i \<notin> d_identifier ` set dns" and "i \<notin> set Object_prototype_names"
  shows "getDefinition (fold put dns newDefinitionsStore) i = None"
proof -
  from fold_put_ok_identifiers[OF store_ok_new, of dns]
  have ok: "store_ok (fold put dns newDefinitionsStore)"
    and ids: "d_identifier ` set (definitions (fold put dns newDefinitionsStore)) \<subseteq>
              d_identifier ` set dns"
    by (simp_all add: newDefinitionsStore_def)
  from assms(1) ids have "i \<notin> d_identifier ` set (definitions (fold put dns newDefinitionsStore))"
    by blast
  then show ?thesis by (simp add: getDefinition_None_iff[OF ok assms(2)])
qed

lemma get_never_put_not_found_witness:
  "''b'' \<notin> d_identifier ` set [\<lparr>d_identifier = ''a'', d_type = ''event'', d_fields = []\<rparr>] \<and>
   ''b'' \<notin> set Object_prototype_names \<and>
   getDefinition
     (fold put [\<lparr>d_identifier = ''a'', d_type = ''event'', d_fields = []\<rparr>] newDefinitionsStore)
     ''b'' = None"
proof -
  have a: "''b'' \<notin> d_identifier ` set [\<lparr>d_identifier = ''a'', d_type = ''event'', d_fields = []\<rparr>]"
    by simp
  have b: "''b'' \<notin> set Object_prototype_names" by (simp add: Object_prototype_names_def)
  from get_never_put_not_found[OF a b] a b show ?thesis by simp
qed

subsection \<open>\<^verbatim>\<open>removeDefinition\<close>\<close>

text \<open>
  Claim C5. The claim: \<open>remove\<close> of an identifier that was \<open>put\<close> removes its entry, so that
  \<open>get\<close> reports not-found afterwards. The program: \<^verbatim>\<open>removeDefinition\<close> looks the
  identifier, a string, up among the stored definitions, which are objects;
  \<^verbatim>\<open>_.indexOf\<close> returns \<open>-1\<close> and the store is returned as it was, whatever it holds.
  After \<open>put\<close> and \<open>remove\<close> of \<^verbatim>\<open>a\<close> on a new store, \<open>get\<close> still finds \<^verbatim>\<open>a\<close>.
\<close>

theorem removeDefinition_never_removes:
  "removeDefinition identifier' s = s \<and>
   getDefinition
     (removeDefinition ''a''
        (put \<lparr>d_identifier = ''a'', d_type = ''event'', d_fields = []\<rparr> newDefinitionsStore))
     ''a'' =
   Some (Stored \<lparr>d_identifier = ''a'', d_type = ''event'', d_fields = []\<rparr>)"
proof
  show noop: "removeDefinition identifier' s = s" for identifier' s
    by (simp add: removeDefinition_def lodash_indexOf_def indexOf_string_in_objects)
  show "getDefinition
     (removeDefinition ''a''
        (put \<lparr>d_identifier = ''a'', d_type = ''event'', d_fields = []\<rparr> newDefinitionsStore))
     ''a'' =
   Some (Stored \<lparr>d_identifier = ''a'', d_type = ''event'', d_fields = []\<rparr>)"
    unfolding noop by code_simp
qed

section \<open>Properties of the handler manager\<close>

text \<open>
  Claim C1. The claim: \<^verbatim>\<open>callHandlers\<close> invokes every callback attached to the identifier
  at its start, in the order of attachment, once. The program: \<^verbatim>\<open>detachAtIndex\<close> splices
  the consumed entry out of the array that the loop of \<^verbatim>\<open>callHandlers\<close> walks, the next
  entry moves to the index of the removed one, and \<^verbatim>\<open>i++\<close> steps over it. With two
  callbacks \<open>f\<close> and \<open>g\<close> attached once each to an identifier, in this order, one
  \<^verbatim>\<open>callHandlers\<close> invokes \<open>f\<close> only; \<open>g\<close> stays attached with its count still 1.
\<close>

theorem callHandlers_skips_after_removal:
  "callHandlers i p (attachOnce i g (attachOnce i f (newHandlerManager, []))) =
   Inr (\<lparr>handlers = [(i, Some [(g, 1)])], handlers_keys = []\<rparr>, [FirstAdded i, Invoke f p])"
  by (simp add: callHandlers_def attachOnce_def attach_def newHandlerManager_def handlers_get_def
        handlers_set_def detachAtIndex_def splice1_def)

text \<open>
  Claim C4. The claim: an identifier is a key of the mapping iff it has at least one entry,
  and \<^verbatim>\<open>registeredIdentifiers\<close> returns exactly the identifiers with an entry. The
  program: \<^verbatim>\<open>detachAtIndex\<close> assigns \<^verbatim>\<open>undefined\<close> to the property of an emptied
  identifier, which keeps the key, and \<^verbatim>\<open>registeredIdentifiers\<close> returns the keys. After
  \<^verbatim>\<open>attach\<close> and \<^verbatim>\<open>detach\<close> of one callback, the identifier has no entry
  (\<^verbatim>\<open>handlers[identifier]\<close> is \<^verbatim>\<open>undefined\<close>, both hooks have fired once) and
  \<^verbatim>\<open>registeredIdentifiers\<close> still returns it.
\<close>

theorem registeredIdentifiers_keeps_emptied:
  "map_sum id (\<lambda>st. (registeredIdentifiers (fst st), handlers_get (fst st) i, snd st))
     (detach i f (attach i f n (newHandlerManager, []))) =
   Inr ([i], None, [FirstAdded i, LastRemoved i])"
  by (simp add: detach_def attach_def newHandlerManager_def handlers_get_def
        handlers_set_def detachAtIndex_def splice1_def registeredIdentifiers_def)

text \<open>
  Claim C8. The claim: \<^verbatim>\<open>detachAll\<close> removes every entry of every identifier and fires
  the last-removed hook once per identifier. The program: \<^verbatim>\<open>detachAll\<close> iterates
  \<^verbatim>\<open>handlers.keys()\<close>, the keys of the entries of the Map, while \<^verbatim>\<open>attach\<close> stores the
  handlers as properties of the object; the Map has no entries and the loop body never
  runs. \<^verbatim>\<open>detachAll\<close> after an \<^verbatim>\<open>attach\<close> returns the manager with the handler still
  attached and fires no hook.
\<close>

theorem detachAll_detaches_nothing:
  "detachAll (attach i f n (newHandlerManager, [])) = Inr (attach i f n (newHandlerManager, [])) \<and>
   attach i f (Some 1) (newHandlerManager, []) =
     (\<lparr>handlers = [(i, Some [(f, 1)])], handlers_keys = []\<rparr>, [FirstAdded i])"
  by (simp add: detachAll_def attach_def newHandlerManager_def handlers_get_def handlers_set_def)

subsection \<open>What holds of the handler manager\<close>

text \<open>
  A callback attached for one call is invoked by the first \<^verbatim>\<open>callHandlers\<close> and not by the
  second; its entry is removed, and the last-removed hook fired, before it is invoked.
  \<^verbatim>\<open>attach\<close> fires the first-added hook exactly when the identifier has no entry.
\<close>

lemma attach_fires_first_added_on_empty:
  "snd (attach i cb n (m, es)) = (if handlers_get m i = None then es @ [FirstAdded i] else es) \<and>
   handlers_get (fst (attach i cb n (m, es))) i =
     Some ((case handlers_get m i of None \<Rightarrow> [] | Some h \<Rightarrow> h) @
           [(cb, case n of None \<Rightarrow> - 1 | Some k \<Rightarrow> k)])"
  by (auto simp: attach_def handlers_get_set Let_def split: option.splits)

lemma once_handler_invoked_once:
  "callHandlers i p (attachOnce i f (newHandlerManager, [])) =
     Inr (\<lparr>handlers = [(i, None)], handlers_keys = []\<rparr>,
          [FirstAdded i, LastRemoved i, Invoke f p]) \<and>
   callHandlers i q (\<lparr>handlers = [(i, None)], handlers_keys = []\<rparr>,
          [FirstAdded i, LastRemoved i, Invoke f p]) =
     Inr (\<lparr>handlers = [(i, None)], handlers_keys = []\<rparr>,
          [FirstAdded i, LastRemoved i, Invoke f p])"
  by (simp add: callHandlers_def attachOnce_def attach_def newHandlerManager_def handlers_get_def
        handlers_set_def detachAtIndex_def splice1_def)

declare callHandlers_loop.simps [simp del] detach_loop.simps [simp del]

text \<open>
  When no entry of the identifier is at its last call, \<^verbatim>\<open>callHandlers\<close> removes nothing
  and invokes every callback once, in the order of attachment, after decrementing the finite
  counts.
\<close>

lemma prop_assign_twice: "prop_assign (prop_assign ps k a) k b = prop_assign ps k b"
  by (induction ps) auto

lemma prop_assign_same: "map_of ps k = Some v \<Longrightarrow> prop_assign ps k v = ps"
  by (induction ps) (auto split: if_splits)

lemma handlers_set_set: "handlers_set (handlers_set m i a) i b = handlers_set m i b"
  by (simp add: handlers_set_def prop_assign_twice)

lemma handlers_set_same: "handlers_get m i = Some h \<Longrightarrow> handlers_set m i (Some h) = m"
  by (auto simp: handlers_set_def handlers_get_def prop_assign_same split: option.splits)

lemma callHandlers_loop_unconsumed:
  assumes "handlers_get m i = Some h" "k \<le> length h" "\<forall>e\<in>set (drop k h). snd e \<noteq> 1"
  shows "callHandlers_loop i p k (m, es) =
     Inr (handlers_set m i
            (Some (take k h @ map (\<lambda>e. (fst e, if 0 < snd e then snd e - 1 else snd e)) (drop k h))),
          es @ map (\<lambda>e. Invoke (fst e) p) (drop k h))"
  using assms
proof (induction "length h - k" arbitrary: k m es h)
  case 0
  then have "k = length h" by simp
  with "0.prems" show ?case
    by (subst callHandlers_loop.simps) (simp add: handlers_set_same)
next
  case (Suc d)
  then have k: "k < length h" by simp
  obtain cb n where e: "h ! k = (cb, n)" by (cases "h ! k")
  have dr: "drop k h = (cb, n) # drop (Suc k) h"
    using k e by (simp add: Cons_nth_drop_Suc[symmetric])
  with Suc.prems(3) have n1: "n \<noteq> 1" and rest: "\<forall>e\<in>set (drop (Suc k) h). snd e \<noteq> 1" by auto
  show ?case
  proof (cases "0 < n")
    case True
    let ?h = "h[k := (cb, n - 1)]"
    let ?m = "handlers_set m i (Some ?h)"
    have g: "handlers_get ?m i = Some ?h" by (simp add: handlers_get_set)
    have d: "d = length ?h - Suc k" using Suc.hyps(2) by simp
    have r: "\<forall>e\<in>set (drop (Suc k) ?h). snd e \<noteq> 1" using rest by simp
    have tk: "take (Suc k) ?h = take k h @ [(cb, n - 1)]"
      using k by (simp add: take_Suc_conv_app_nth)
    from Suc.hyps(1)[OF d g _ r, of "es @ [Invoke cb p]"] k
    have "callHandlers_loop i p (Suc k) (?m, es @ [Invoke cb p]) =
          Inr (handlers_set m i (Some (take k h @ (cb, n - 1) #
                 map (\<lambda>e. (fst e, if 0 < snd e then snd e - 1 else snd e)) (drop (Suc k) h))),
               es @ Invoke cb p # map (\<lambda>e. Invoke (fst e) p) (drop (Suc k) h))"
      by (simp add: handlers_set_set tk)
    with True n1 k e Suc.prems(1) show ?thesis
      by (subst callHandlers_loop.simps) (simp add: dr Let_def)
  next
    case False
    have d: "d = length h - Suc k" using Suc.hyps(2) by simp
    have tk: "take (Suc k) h = take k h @ [(cb, n)]"
      using k e by (simp add: take_Suc_conv_app_nth)
    from Suc.hyps(1)[OF d Suc.prems(1) _ rest, of "es @ [Invoke cb p]"] k
    have "callHandlers_loop i p (Suc k) (m, es @ [Invoke cb p]) =
          Inr (handlers_set m i (Some (take k h @ (cb, n) #
                 map (\<lambda>e. (fst e, if 0 < snd e then snd e - 1 else snd e)) (drop (Suc k) h))),
               es @ Invoke cb p # map (\<lambda>e. Invoke (fst e) p) (drop (Suc k) h))"
      by (simp add: tk)
    with False k e Suc.prems(1) show ?thesis
      by (subst callHandlers_loop.simps) (simp add: dr)
  qed
qed

lemma callHandlers_invokes_all_unconsumed:
  assumes "handlers_get m i = Some h" "\<forall>e\<in>set h. snd e \<noteq> 1"
  shows "callHandlers i p (m, es) =
     Inr (handlers_set m i (Some (map (\<lambda>e. (fst e, if 0 < snd e then snd e - 1 else snd e)) h)),
          es @ map (\<lambda>e. Invoke (fst e) p) h)"
  using callHandlers_loop_unconsumed[of m i h 0 p es] assms by (simp add: callHandlers_def)

lemma callHandlers_invokes_all_unconsumed_witness:
  "callHandlers ''a'' ''x''
     (\<lparr>handlers = [(''a'', Some [(0::nat, - 1), (1, 3)])], handlers_keys = []\<rparr>, []) =
   Inr (\<lparr>handlers = [(''a'', Some [(0, - 1), (1, 2)])], handlers_keys = []\<rparr>,
        [Invoke 0 ''x'', Invoke 1 ''x''])"
proof -
  let ?m = "\<lparr>handlers = [(''a'', Some [(0::nat, - 1), (1, 3)])], handlers_keys = []\<rparr>"
  have g: "handlers_get ?m ''a'' = Some [(0, - 1), (1, 3)]" by (simp add: handlers_get_def)
  have n: "\<forall>e\<in>set [(0::nat, - 1::int), (1, 3)]. snd e \<noteq> 1" by simp
  from callHandlers_invokes_all_unconsumed[OF g n, of "''x''" "[]"] show ?thesis
    by (simp add: handlers_set_def)
qed

lemma detach_loop_no_match:
  assumes "\<forall>h. handlers_get m i = Some h \<longrightarrow> (\<forall>j. k \<le> j \<and> j < length h \<longrightarrow> fst (h ! j) \<noteq> cb)"
  shows "detach_loop i cb k (m, es) = Inr (m, es)"
proof (cases "handlers_get m i")
  case None
  then show ?thesis by (subst detach_loop.simps) simp
next
  case (Some h)
  with assms have "\<forall>j. k \<le> j \<and> j < length h \<longrightarrow> fst (h ! j) \<noteq> cb" by simp
  then show ?thesis using Some
  proof (induction "length h - k" arbitrary: k)
    case 0
    then show ?case by (subst detach_loop.simps) simp
  next
    case (Suc d)
    then have k: "k < length h" by simp
    from Suc.prems(1) k have ne: "fst (h ! k) \<noteq> cb" by simp
    have d: "d = length h - Suc k" using Suc.hyps(2) by simp
    have "detach_loop i cb (Suc k) (m, es) = Inr (m, es)"
      using Suc.hyps(1)[OF d _ Suc.prems(2)] Suc.prems(1) by simp
    with k ne Suc.prems(2) show ?case
      by (subst detach_loop.simps) (simp add: case_prod_beta)
  qed
qed

lemma detach_loop_skip:
  assumes "handlers_get m i = Some h" "k \<le> k'" "k' \<le> length h"
    "\<forall>j. k \<le> j \<and> j < k' \<longrightarrow> fst (h ! j) \<noteq> cb"
  shows "detach_loop i cb k (m, es) = detach_loop i cb k' (m, es)"
  using assms
proof (induction "k' - k" arbitrary: k)
  case 0
  then show ?case by simp
next
  case (Suc d)
  then have k: "k < k'" "k < length h" by simp_all
  from Suc.prems(4) k have ne: "fst (h ! k) \<noteq> cb" by simp
  have d: "d = k' - Suc k" using Suc.hyps(2) by simp
  have "detach_loop i cb (Suc k) (m, es) = detach_loop i cb k' (m, es)"
    using Suc.hyps(1)[OF d Suc.prems(1) _ Suc.prems(3)] Suc.prems(4) k by simp
  with k ne Suc.prems(1) show ?case
    by (subst detach_loop.simps) (simp add: case_prod_beta)
qed

text \<open>\<^verbatim>\<open>detach\<close> of a callback that is attached once to the identifier removes its entry.\<close>

lemma detach_removes_single_entry:
  assumes g: "handlers_get m i = Some (h1 @ (cb, n) # h2)"
    and n1: "cb \<notin> fst ` set h1" and n2: "cb \<notin> fst ` set h2"
  shows "detach i cb (m, es) =
     Inr (if h1 @ h2 = [] then (handlers_set m i None, es @ [LastRemoved i])
          else (handlers_set m i (Some (h1 @ h2)), es))"
proof -
  let ?h = "h1 @ (cb, n) # h2"
  let ?k = "length h1"
  have pre: "\<forall>j. 0 \<le> j \<and> j < ?k \<longrightarrow> fst (?h ! j) \<noteq> cb"
    using n1 by (auto simp: nth_append image_iff)
  have skip: "detach_loop i cb 0 (m, es) = detach_loop i cb ?k (m, es)"
    using detach_loop_skip[OF g _ _ pre] by simp
  have sp: "splice1 ?h ?k = h1 @ h2" by (simp add: splice1_def)
  show ?thesis
  proof (cases "h1 @ h2 = []")
    case True
    have d: "detachAtIndex i ?k (m, es) = Inr (handlers_set m i None, es @ [LastRemoved i])"
      using g True by (simp add: detachAtIndex_def sp del: append_is_Nil_conv)
    have "detach_loop i cb (Suc ?k) (handlers_set m i None, es @ [LastRemoved i]) =
          Inr (handlers_set m i None, es @ [LastRemoved i])"
      by (rule detach_loop_no_match) (simp add: handlers_get_set)
    with d g True have "detach_loop i cb ?k (m, es) =
        Inr (handlers_set m i None, es @ [LastRemoved i])"
      by (subst detach_loop.simps) simp
    with skip True show ?thesis by (simp add: detach_def)
  next
    case False
    have d: "detachAtIndex i ?k (m, es) = Inr (handlers_set m i (Some (h1 @ h2)), es)"
      using g False by (simp add: detachAtIndex_def sp del: append_is_Nil_conv)
    have post: "\<forall>j. Suc ?k \<le> j \<and> j < length (h1 @ h2) \<longrightarrow> fst ((h1 @ h2) ! j) \<noteq> cb"
      using n2 by (auto simp: nth_append image_iff)
    have "detach_loop i cb (Suc ?k) (handlers_set m i (Some (h1 @ h2)), es) =
          Inr (handlers_set m i (Some (h1 @ h2)), es)"
      using post by (intro detach_loop_no_match) (simp add: handlers_get_set)
    with d g have "detach_loop i cb ?k (m, es) = Inr (handlers_set m i (Some (h1 @ h2)), es)"
      by (subst detach_loop.simps) simp
    with skip False show ?thesis by (simp add: detach_def)
  qed
qed

lemma detach_removes_single_entry_witness:
  "detach ''a'' (1::nat)
     (\<lparr>handlers = [(''a'', Some [(0, - 1), (1, 1), (2, - 1)])], handlers_keys = []\<rparr>,
      [] :: (nat, string) effect list) =
   Inr (\<lparr>handlers = [(''a'', Some [(0, - 1), (2, - 1)])], handlers_keys = []\<rparr>, [])"
proof -
  let ?m = "\<lparr>handlers = [(''a'', Some [(0::nat, - 1), (1, 1), (2, - 1)])], handlers_keys = []\<rparr>"
  have g: "handlers_get ?m ''a'' = Some ([(0, - 1)] @ (1, 1) # [(2, - 1)])"
    by (simp add: handlers_get_def)
  have n1: "(1::nat) \<notin> fst ` set [(0::nat, - 1::int)]" and n2: "(1::nat) \<notin> fst ` set [(2::nat, - 1::int)]"
    by simp_all
  from detach_removes_single_entry[OF g n1 n2, of "[] :: (nat, string) effect list"] show ?thesis
    by (simp add: handlers_set_def)
qed

section \<open>Properties of the client\<close>

subsection \<open>A client on which \<^verbatim>\<open>connect\<close> was never called\<close>

lemma on_connection_None: "connection c = None \<Longrightarrow> on_connection f c = Inl TypeError"
  by (simp add: on_connection_def)

lemma isConnected_None: "connection c = None \<Longrightarrow> \<not> truthy (isConnected c)"
  by (simp add: isConnected_def)

lemma connection_manager_update [simp]: "connection (manager_update mn m c) = connection c"
  by (cases mn) simp_all

lemma connection_resolve [simp]: "connection (resolve n v c) = connection c"
  by (simp add: resolve_def)

lemma connection_reject [simp]: "connection (reject n r c) = connection c"
  by (simp add: reject_def)

lemma connection_clearTimeout [simp]: "connection (clearTimeout n c) = connection c"
  by (simp add: clearTimeout_def)

lemma run_effect_unconnected:
  assumes "connection c = None" "run_effect mn e c = Inr c'"
  shows "connection c' = None"
proof (cases e)
  case (Invoke cb p)
  with assms show ?thesis by (cases cb) auto
next
  case (FirstAdded i)
  with assms show ?thesis
    by (cases mn) (auto simp: eventHandlers_firstAdded_def isConnected_def)
next
  case (LastRemoved i)
  with assms show ?thesis
    by (cases mn) (auto simp: eventHandlers_lastRemoved_def isConnected_def)
qed

lemma run_effects_unconnected:
  "connection c = None \<Longrightarrow> run_effects mn es c = Inr c' \<Longrightarrow> connection c' = None"
proof (induction es arbitrary: c)
  case Nil
  then show ?case by simp
next
  case (Cons e es)
  then show ?case
    by (auto split: sum.splits dest: run_effect_unconnected)
qed

lemma on_manager_unconnected:
  "connection c = None \<Longrightarrow> on_manager mn f c = Inr c' \<Longrightarrow> connection c' = None"
  by (auto simp: on_manager_def split: sum.splits prod.splits
           intro: run_effects_unconnected[where c = "manager_update mn _ c"])

lemma makePromise_unconnected:
  "connection c = None \<Longrightarrow> makePromise mn i t c = Inr (n, c') \<Longrightarrow> connection c' = None"
  by (auto simp: makePromise_def Let_def split: sum.splits if_splits
           dest!: on_manager_unconnected[rotated])

lemma makePromises_unconnected:
  "connection c = None \<Longrightarrow> makePromises mn is t c = Inr (ns, c') \<Longrightarrow> connection c' = None"
proof (induction "is" arbitrary: c ns)
  case Nil
  then show ?case by simp
next
  case (Cons i "is")
  then show ?case
    by (auto split: sum.splits prod.splits dest: makePromise_unconnected)
qed

lemma timer_expires_unconnected:
  "connection c = None \<Longrightarrow> timer_expires n c = Inr c' \<Longrightarrow> connection c' = None"
  by (auto simp: timer_expires_def split: option.splits sum.splits prod.splits
           dest!: on_manager_unconnected[rotated])

lemma addLocalDefinition_unconnected:
  "connection c = None \<Longrightarrow> addLocalDefinition t i fs c = Inr c' \<Longrightarrow> connection c' = None"
  by (auto simp: addLocalDefinition_def Let_def isConnected_def split: option.splits prod.splits if_splits)

lemma removeLocalDefinition_unconnected:
  "connection c = None \<Longrightarrow> removeLocalDefinition t i c = Inr c' \<Longrightarrow> connection c' = None"
  by (auto simp: removeLocalDefinition_def Let_def isConnected_def split: option.splits prod.splits if_splits)

lemma forEach_readyCallback_eq:
  "forEach_readyCallback cbs c = c\<lparr>readyInvoked := readyInvoked c @ cbs\<rparr>"
  by (induction cbs arbitrary: c) simp_all

lemma each_sendSubscribe_unconnected:
  "connection c = None \<Longrightarrow> each_sendSubscribe ids c = Inr c' \<Longrightarrow> connection c' = None"
  by (cases ids) (auto simp: on_connection_None)

lemma forEach_sendDefinition_unconnected:
  "connection c = None \<Longrightarrow> forEach_sendDefinition dns c = Inr c' \<Longrightarrow> connection c' = None"
  by (cases dns) (auto simp: on_connection_None)

lemma ready_unconnected:
  assumes "connection c = None" "ready c = Inr c'"
  shows "connection c' = None"
proof -
  let ?c1 = "c\<lparr>readyInvoked := readyInvoked c @ readyCallbacks c\<rparr>"
  from assms(2) obtain c2 c3 where
    s1: "each_sendSubscribe (registeredIdentifiers (eventHandlers ?c1)) ?c1 = Inr c2"
    and s2: "forEach_sendDefinition (definitions (action_store (localDefinitions c2))) c2 = Inr c3"
    and s3: "forEach_sendDefinition (definitions (event_store (localDefinitions c3))) c3 = Inr c'"
    by (auto simp: ready_def Let_def forEach_readyCallback_eq split: sum.splits)
  from assms(1) have "connection ?c1 = None" by simp
  from each_sendSubscribe_unconnected[OF this s1] have "connection c2 = None" .
  from forEach_sendDefinition_unconnected[OF this s2] have "connection c3 = None" .
  from forEach_sendDefinition_unconnected[OF this s3] show ?thesis .
qed

lemma channel_onopen_unconnected:
  "connection c = None \<Longrightarrow> channel_onopen ch c = Inr c' \<Longrightarrow> connection c' = None"
  by (cases ch)
     (auto simp: channel_onopen_def channel_opens_def split: if_splits
           dest: ready_unconnected[rotated])

lemma forEach_sendAction_unconnected:
  "connection c = None \<Longrightarrow> forEach_sendAction as c = (r, c') \<Longrightarrow> connection c' = None"
  by (cases as) (auto simp: on_connection_None)

lemma bootstrap_promises_unconnected:
  "connection c = None \<Longrightarrow> bootstrap_promises as es t c = (r, c') \<Longrightarrow> connection c' = None"
  by (auto simp: bootstrap_promises_def split: sum.splits prod.splits option.splits
           dest: makePromises_unconnected forEach_sendAction_unconnected)

lemma bootstrap_unconnected:
  "connection c = None \<Longrightarrow> bootstrap as es ds t c = Inr c' \<Longrightarrow> connection c' = None"
  by (auto simp: bootstrap_def requireDefinitions_def Let_def
           split: sum.splits prod.splits if_splits
           dest: makePromises_unconnected bootstrap_promises_unconnected)

lemma continue_bootstrap_unconnected:
  "connection c = None \<Longrightarrow> connection (continue_bootstrap j c) = None"
  by (auto simp: continue_bootstrap_def Let_def
           split: stage.splits promise_all.splits sum.splits prod.splits
           dest: bootstrap_promises_unconnected)

lemma fold_continue_unconnected:
  "connection c = None \<Longrightarrow> connection (fold continue_bootstrap js c) = None"
  by (induction js arbitrary: c) (simp_all add: continue_bootstrap_unconnected)

lemma run_continuations_unconnected:
  "connection c = None \<Longrightarrow> connection (run_continuations c) = None"
  by (simp add: run_continuations_def fold_continue_unconnected)

lemma perform_unconnected:
  assumes "i \<noteq> Connect" "connection c = None" "perform i c = Inr c'"
  shows "connection c' = None"
  using assms
  by (cases i)
     (auto simp: socket_onopen_def handleMessage_def onReady_def sendEvent_def sendAction_def
                 on_connection_None requireDefinitions_def
           split: sum.splits prod.splits
           dest: channel_onopen_unconnected timer_expires_unconnected addLocalDefinition_unconnected
                 removeLocalDefinition_unconnected on_manager_unconnected makePromise_unconnected
                 makePromises_unconnected bootstrap_unconnected)

lemma step_unconnected:
  "i \<noteq> Connect \<Longrightarrow> connection c = None \<Longrightarrow> step i c = Inr c' \<Longrightarrow> connection c' = None"
  by (auto simp: step_def split: sum.splits
           dest: perform_unconnected intro: run_continuations_unconnected)

lemma run_unconnected:
  "Connect \<notin> set inputs \<Longrightarrow> connection c = None \<Longrightarrow> run inputs c = Inr c' \<Longrightarrow>
   connection c' = None"
proof (induction inputs arbitrary: c)
  case Nil
  then show ?case by simp
next
  case (Cons i inputs)
  from Cons.prems(3) obtain c1 where s: "step i c = Inr c1" and r: "run inputs c1 = Inr c'"
    by (auto split: sum.splits)
  from Cons.prems(1) have "i \<noteq> Connect" by auto
  from step_unconnected[OF this Cons.prems(2) s] have "connection c1 = None" .
  with Cons.IH[OF _ this r] Cons.prems(1) show ?case by simp
qed

text \<open>
  Claim C9. On a client on which \<^verbatim>\<open>connect\<close> was never called, whatever else was called
  on it, \<^verbatim>\<open>sendEvent\<close> and \<^verbatim>\<open>sendAction\<close> throw a \<^verbatim>\<open>TypeError\<close>, since
  \<^verbatim>\<open>connection\<close> is \<^verbatim>\<open>undefined\<close>; nothing is queued and nothing is skipped. In that
  state \<^verbatim>\<open>isConnected\<close> returns a falsy value.
\<close>

theorem send_before_connect_throws:
  assumes "Connect \<notin> set inputs" and "run inputs newClient = Inr c"
  shows "sendEvent identifier' data c = Inl TypeError \<and>
         sendAction identifier' data c = Inl TypeError \<and>
         \<not> truthy (isConnected c)"
proof -
  have "connection newClient = None" by (simp add: newClient_def)
  from run_unconnected[OF assms(1) this assms(2)] have "connection c = None" .
  then show ?thesis
    by (simp add: sendEvent_def sendAction_def on_connection_None isConnected_None)
qed

theorem send_before_connect_throws_witness:
  "Connect \<notin> set [OnReady 0, AddLocalDefinition ''action'' ''GAMEPAD_MOVE'' []] \<and>
   (case run [OnReady 0, AddLocalDefinition ''action'' ''GAMEPAD_MOVE'' []] newClient of
      Inl e \<Rightarrow> False
    | Inr c \<Rightarrow>
        sendEvent ''GAMEPAD_MOVE'' ''data'' c = Inl TypeError \<and>
        sendAction ''GAMEPAD_MOVE'' ''data'' c = Inl TypeError \<and>
        \<not> truthy (isConnected c))"
proof -
  let ?inputs = "[OnReady 0, AddLocalDefinition ''action'' ''GAMEPAD_MOVE'' []]"
  have no: "Connect \<notin> set ?inputs" by simp
  have "(case run ?inputs newClient of Inl e \<Rightarrow> False | Inr c \<Rightarrow> True)" by code_simp
  then obtain c where c: "run ?inputs newClient = Inr c" by (auto split: sum.splits)
  from send_before_connect_throws[OF no c] no c show ?thesis by simp
qed

subsection \<open>Packets of other types\<close>

text \<open>
  Claim C10. For a message whose decoded packet has a type other than \<^verbatim>\<open>event\<close>,
  \<^verbatim>\<open>action\<close>, \<^verbatim>\<open>def\<close> and \<^verbatim>\<open>undef\<close>, \<^verbatim>\<open>handleMessage\<close> returns without an
  exception and leaves the client as it was: the stores, the handler managers, and the
  record of the callbacks invoked. A message comes from a connection, so \<^verbatim>\<open>connection\<close>
  is set.
\<close>

theorem handleMessage_drops_other_types:
  assumes "connection c \<noteq> None"
    and "p_type pk \<notin> {EVENT, ACTION, DEFINITION, UNDEFINITION}"
  shows "handleMessage pk c = Inr c"
  using assms by (auto simp: handleMessage_def split: option.splits)

theorem handleMessage_drops_other_types_witness:
  "connection (connect newClient) \<noteq> None \<and>
   SUBSCRIBE \<notin> {EVENT, ACTION, DEFINITION, UNDEFINITION} \<and>
   handleMessage \<lparr>p_type = SUBSCRIBE, p_payload = IdentifierOnly ''E1''\<rparr> (connect newClient) =
     Inr (connect newClient)"
proof -
  have a: "connection (connect newClient) \<noteq> None" by (simp add: connect_def)
  have b: "p_type \<lparr>p_type = SUBSCRIBE, p_payload = IdentifierOnly ''E1''\<rparr>
             \<notin> {EVENT, ACTION, DEFINITION, UNDEFINITION}"
    by (simp add: SUBSCRIBE_def EVENT_def ACTION_def DEFINITION_def UNDEFINITION_def)
  from handleMessage_drops_other_types[OF a b] a b show ?thesis by simp
qed

subsection \<open>A socket opens\<close>

lemma each_sendSubscribe_open:
  assumes "connection c = Some k" "connected k"
  shows "each_sendSubscribe ids c =
     Inr (c\<lparr>connection := Some (k\<lparr>sent := sent k @
            map (\<lambda>i. \<lparr>p_type = SUBSCRIBE, p_payload = IdentifierOnly i\<rparr>) ids\<rparr>)\<rparr>)"
  using assms
proof (induction ids arbitrary: c k)
  case Nil
  then show ?case by simp
next
  case (Cons i ids)
  let ?k = "k\<lparr>sent := sent k @ [\<lparr>p_type = SUBSCRIBE, p_payload = IdentifierOnly i\<rparr>]\<rparr>"
  have s: "on_connection (connection_sendSubscribe i) c = Inr (c\<lparr>connection := Some ?k\<rparr>)"
    using Cons.prems by (simp add: on_connection_def connection_sendSubscribe_def socket_send_def)
  have "each_sendSubscribe ids (c\<lparr>connection := Some ?k\<rparr>) =
        Inr (c\<lparr>connection := Some ?k\<rparr>\<lparr>connection := Some (?k\<lparr>sent := sent ?k @
            map (\<lambda>i. \<lparr>p_type = SUBSCRIBE, p_payload = IdentifierOnly i\<rparr>) ids\<rparr>)\<rparr>)"
    using Cons.prems by (intro Cons.IH) simp_all
  with s show ?case by simp
qed

lemma forEach_sendDefinition_open:
  assumes "connection c = Some k" "connected k"
  shows "forEach_sendDefinition dns c =
     Inr (c\<lparr>connection := Some (k\<lparr>sent := sent k @
            map (\<lambda>dn. \<lparr>p_type = DEFINITION, p_payload = DefinitionObject dn\<rparr>) dns\<rparr>)\<rparr>)"
  using assms
proof (induction dns arbitrary: c k)
  case Nil
  then show ?case by simp
next
  case (Cons dn dns)
  let ?k = "k\<lparr>sent := sent k @ [\<lparr>p_type = DEFINITION, p_payload = DefinitionObject dn\<rparr>]\<rparr>"
  have s: "on_connection (connection_sendDefinition dn) c = Inr (c\<lparr>connection := Some ?k\<rparr>)"
    using Cons.prems by (simp add: on_connection_def connection_sendDefinition_def socket_send_def)
  have "forEach_sendDefinition dns (c\<lparr>connection := Some ?k\<rparr>) =
        Inr (c\<lparr>connection := Some ?k\<rparr>\<lparr>connection := Some (?k\<lparr>sent := sent ?k @
            map (\<lambda>dn. \<lparr>p_type = DEFINITION, p_payload = DefinitionObject dn\<rparr>) dns\<rparr>)\<rparr>)"
    using Cons.prems by (intro Cons.IH) simp_all
  with s show ?case by simp
qed

lemma ready_open:
  assumes "connection c = Some k" and "connected k"
  shows "ready c =
     Inr (c\<lparr>connection := Some
              (k\<lparr>sent := sent k @
                 map (\<lambda>i. \<lparr>p_type = SUBSCRIBE, p_payload = IdentifierOnly i\<rparr>)
                   (registeredIdentifiers (eventHandlers c)) @
                 map (\<lambda>dn. \<lparr>p_type = DEFINITION, p_payload = DefinitionObject dn\<rparr>)
                   (definitions (action_store (localDefinitions c))) @
                 map (\<lambda>dn. \<lparr>p_type = DEFINITION, p_payload = DefinitionObject dn\<rparr>)
                   (definitions (event_store (localDefinitions c)))\<rparr>),
            readyInvoked := readyInvoked c @ readyCallbacks c\<rparr>)"
proof -
  let ?c1 = "c\<lparr>readyInvoked := readyInvoked c @ readyCallbacks c\<rparr>"
  let ?subs = "map (\<lambda>i. \<lparr>p_type = SUBSCRIBE, p_payload = IdentifierOnly i\<rparr>)
                   (registeredIdentifiers (eventHandlers c))"
  let ?as = "map (\<lambda>dn. \<lparr>p_type = DEFINITION, p_payload = DefinitionObject dn\<rparr>)
                   (definitions (action_store (localDefinitions c)))"
  let ?es = "map (\<lambda>dn. \<lparr>p_type = DEFINITION, p_payload = DefinitionObject dn\<rparr>)
                   (definitions (event_store (localDefinitions c)))"
  let ?k1 = "k\<lparr>sent := sent k @ ?subs\<rparr>"
  let ?c2 = "?c1\<lparr>connection := Some ?k1\<rparr>"
  let ?k2 = "?k1\<lparr>sent := sent ?k1 @ ?as\<rparr>"
  let ?c3 = "?c2\<lparr>connection := Some ?k2\<rparr>"
  let ?k3 = "?k2\<lparr>sent := sent ?k2 @ ?es\<rparr>"
  have r: "forEach_readyCallback (readyCallbacks c) c = ?c1"
    by (simp add: forEach_readyCallback_eq)
  have s1: "each_sendSubscribe (registeredIdentifiers (eventHandlers ?c1)) ?c1 = Inr ?c2"
    using each_sendSubscribe_open[of ?c1 k "registeredIdentifiers (eventHandlers c)"] assms
    by simp
  have s2: "forEach_sendDefinition (definitions (action_store (localDefinitions ?c2))) ?c2 = Inr ?c3"
    using forEach_sendDefinition_open[of ?c2 ?k1 "definitions (action_store (localDefinitions c))"]
      assms
    by simp
  have s3: "forEach_sendDefinition (definitions (event_store (localDefinitions ?c3))) ?c3 =
            Inr (?c3\<lparr>connection := Some ?k3\<rparr>)"
    using forEach_sendDefinition_open[of ?c3 ?k2 "definitions (event_store (localDefinitions c))"]
      assms
    by simp
  have "ready c = Inr (?c3\<lparr>connection := Some ?k3\<rparr>)"
    using r s1 s2 s3 by (simp add: ready_def Let_def)
  then show ?thesis by simp
qed

lemma handlers_get_registered:
  "handlers_get m i = Some h \<Longrightarrow> i \<in> set (registeredIdentifiers m)"
  by (auto simp: handlers_get_def registeredIdentifiers_def
           split: option.splits dest!: map_of_SomeD intro: rev_image_eqI)

text \<open>
  Claim C6, as the program has it. \<open>c0\<close> is the client at the moment a socket has opened,
  that of the connection created last or that of an earlier one, and \<open>k\<close> is the
  connection that \<^verbatim>\<open>connection\<close> holds at that moment, the one created last. When \<open>k\<close> is
  open, every queued ready callback is invoked once, in the order of the queue, and the
  queue is left as it was; then \<open>k\<close> sends \<^verbatim>\<open>sub\<close> packets, one of them for every
  identifier that has an entry in the event handlers, and then a \<^verbatim>\<open>def\<close> packet for every
  definition of the local action store and of the local event store. Nothing else of the
  client changes.
\<close>

theorem socket_onopen_replays:
  assumes "channel_opens ch c = Some c0" and "connection c0 = Some k" and "connected k"
  shows "\<exists>subs.
     channel_onopen ch c =
       Inr (c0\<lparr>connection := Some
                (k\<lparr>sent := sent k @ subs @
                   map (\<lambda>dn. \<lparr>p_type = DEFINITION, p_payload = DefinitionObject dn\<rparr>)
                     (definitions (action_store (localDefinitions c0))) @
                   map (\<lambda>dn. \<lparr>p_type = DEFINITION, p_payload = DefinitionObject dn\<rparr>)
                     (definitions (event_store (localDefinitions c0)))\<rparr>),
              readyInvoked := readyInvoked c0 @ readyCallbacks c0\<rparr>) \<and>
     (\<forall>p\<in>set subs. p_type p = SUBSCRIBE) \<and>
     (\<forall>i h. handlers_get (eventHandlers c0) i = Some h \<longrightarrow>
        \<lparr>p_type = SUBSCRIBE, p_payload = IdentifierOnly i\<rparr> \<in> set subs)"
proof -
  let ?subs = "map (\<lambda>i. \<lparr>p_type = SUBSCRIBE, p_payload = IdentifierOnly i\<rparr>)
                   (registeredIdentifiers (eventHandlers c0))"
  have "channel_onopen ch c = ready c0"
    using assms(1) by (simp add: channel_onopen_def)
  then have a: "channel_onopen ch c =
       Inr (c0\<lparr>connection := Some
                (k\<lparr>sent := sent k @ ?subs @
                   map (\<lambda>dn. \<lparr>p_type = DEFINITION, p_payload = DefinitionObject dn\<rparr>)
                     (definitions (action_store (localDefinitions c0))) @
                   map (\<lambda>dn. \<lparr>p_type = DEFINITION, p_payload = DefinitionObject dn\<rparr>)
                     (definitions (event_store (localDefinitions c0)))\<rparr>),
              readyInvoked := readyInvoked c0 @ readyCallbacks c0\<rparr>)"
    using ready_open[OF assms(2,3)] by simp
  have b: "\<forall>p\<in>set ?subs. p_type p = SUBSCRIBE" by auto
  have c: "\<forall>i h. handlers_get (eventHandlers c0) i = Some h \<longrightarrow>
        \<lparr>p_type = SUBSCRIBE, p_payload = IdentifierOnly i\<rparr> \<in> set ?subs"
    by (auto dest: handlers_get_registered)
  from a b c show ?thesis by blast
qed

text \<open>An example: a ready callback, an event handler and a local definition precede two
  calls of \<^verbatim>\<open>connect\<close>; the socket of the second connection opens, and then the socket
  of the first. Both times the callback is invoked and the packets go to the second
  connection.\<close>

theorem socket_onopen_replays_witness:
  "(case run [OnReady 7, Attach EventHandlers ''E1'' 0 None,
              AddLocalDefinition ''action'' ''A'' [], Connect, Connect, SocketOpen] newClient of
      Inl e \<Rightarrow> False
    | Inr c \<Rightarrow>
        (case channel_opens (Earlier 0) c of
           None \<Rightarrow> False
         | Some c0 \<Rightarrow>
             (case connection c0 of
                None \<Rightarrow> False
              | Some k \<Rightarrow>
                  connected k \<and>
                  map_sum id (\<lambda>c'. (readyInvoked c', readyCallbacks c',
                                     map_option sent (connection c')))
                    (channel_onopen (Earlier 0) c) =
                  Inr ([7, 7], [7],
                       Some [\<lparr>p_type = SUBSCRIBE, p_payload = IdentifierOnly ''E1''\<rparr>,
                             \<lparr>p_type = DEFINITION, p_payload = DefinitionObject
                                \<lparr>d_identifier = ''A'', d_type = ''action'', d_fields = []\<rparr>\<rparr>,
                             \<lparr>p_type = SUBSCRIBE, p_payload = IdentifierOnly ''E1''\<rparr>,
                             \<lparr>p_type = DEFINITION, p_payload = DefinitionObject
                                \<lparr>d_identifier = ''A'', d_type = ''action'', d_fields = []\<rparr>\<rparr>]))))"
proof -
  let ?inputs = "[OnReady 7, Attach EventHandlers ''E1'' 0 None,
                  AddLocalDefinition ''action'' ''A'' [], Connect, Connect, SocketOpen]"
  let ?A = "\<lparr>d_identifier = ''A'', d_type = ''action'', d_fields = []\<rparr>"
  let ?sub = "\<lparr>p_type = SUBSCRIBE, p_payload = IdentifierOnly ''E1''\<rparr>"
  let ?def = "\<lparr>p_type = DEFINITION, p_payload = DefinitionObject ?A\<rparr>"
  have before:
    "(case run ?inputs newClient of
        Inl e \<Rightarrow> False
      | Inr c \<Rightarrow>
          (case channel_opens (Earlier 0) c of
             None \<Rightarrow> False
           | Some c0 \<Rightarrow>
               (case connection c0 of
                  None \<Rightarrow> False
                | Some k \<Rightarrow>
                    connected k \<and> sent k = [?sub, ?def] \<and>
                    readyInvoked c0 = [7] \<and> readyCallbacks c0 = [7] \<and>
                    registeredIdentifiers (eventHandlers c0) = [''E1''] \<and>
                    handlers_get (eventHandlers c0) ''E1'' = Some [(UserCallback 0, - 1)] \<and>
                    definitions (action_store (localDefinitions c0)) = [?A] \<and>
                    definitions (event_store (localDefinitions c0)) = [])))"
    by code_simp
  then obtain c c0 k where c: "run ?inputs newClient = Inr c"
    and c0: "channel_opens (Earlier 0) c = Some c0"
    and k: "connection c0 = Some k" and kc: "connected k"
    and vals: "sent k = [?sub, ?def]" "readyInvoked c0 = [7]" "readyCallbacks c0 = [7]"
      "definitions (action_store (localDefinitions c0)) = [?A]"
      "definitions (event_store (localDefinitions c0)) = []"
    and ids: "registeredIdentifiers (eventHandlers c0) = [''E1'']"
    by (auto split: sum.splits option.splits)
  let ?defs = "map (\<lambda>dn. \<lparr>p_type = DEFINITION, p_payload = DefinitionObject dn\<rparr>)
                     (definitions (action_store (localDefinitions c0))) @
               map (\<lambda>dn. \<lparr>p_type = DEFINITION, p_payload = DefinitionObject dn\<rparr>)
                     (definitions (event_store (localDefinitions c0)))"
  from socket_onopen_replays[OF c0 k kc] obtain subs where
    r: "channel_onopen (Earlier 0) c =
          Inr (c0\<lparr>connection := Some (k\<lparr>sent := sent k @ subs @ ?defs\<rparr>),
                  readyInvoked := readyInvoked c0 @ readyCallbacks c0\<rparr>)"
    and s: "\<forall>p\<in>set subs. p_type p = SUBSCRIBE"
    and e: "\<forall>i h. handlers_get (eventHandlers c0) i = Some h \<longrightarrow>
              \<lparr>p_type = SUBSCRIBE, p_payload = IdentifierOnly i\<rparr> \<in> set subs"
    by blast
  have "channel_onopen (Earlier 0) c = ready c0"
    using c0 by (simp add: channel_onopen_def)
  with ready_open[OF k kc] ids
  have r': "channel_onopen (Earlier 0) c =
          Inr (c0\<lparr>connection := Some (k\<lparr>sent := sent k @ [?sub] @ ?defs\<rparr>),
                  readyInvoked := readyInvoked c0 @ readyCallbacks c0\<rparr>)"
    by simp
  from r r' have "subs = [?sub]"
    by (simp only:) (drule arg_cong[where f = "\<lambda>x. case x of Inl e \<Rightarrow> None
          | Inr c' \<Rightarrow> map_option sent (connection c')"], simp)
  with r c c0 k kc vals show ?thesis by simp
qed

text \<open>
  Claim C6, as it is stated, says that the queue is cleared, so that a callback queued
  before a first \<^verbatim>\<open>connect\<close> is not invoked by a later one. The program never removes a
  callback from \<^verbatim>\<open>readyCallbacks\<close>: after \<^verbatim>\<open>onReady\<close> of callback 0 and two rounds of
  \<^verbatim>\<open>connect\<close> and the socket opening, the queue still holds callback 0, which has been
  invoked twice. The claim also speaks of every channel that \<^verbatim>\<open>connect\<close> created. After
  a local definition is added and \<^verbatim>\<open>connect\<close> is called twice, the socket of the first
  connection opens: \<^verbatim>\<open>ready\<close> sends on the connection created last, whose socket has not
  opened, \<^verbatim>\<open>socket.send\<close> throws and no \<^verbatim>\<open>def\<close> packet is sent.
\<close>

theorem ready_queue_kept_and_earlier_channel_throws:
  "map_sum id (\<lambda>c. (readyCallbacks c, readyInvoked c))
     (run [OnReady 0, Connect, SocketOpen, Connect, SocketOpen] newClient) = Inr ([0], [0, 0]) \<and>
   map_sum id (\<lambda>c. map_option sent (connection c))
     (run [AddLocalDefinition ''action'' ''A'' [], Connect, Connect, EarlierSocketOpen 0]
        newClient) = Inl SocketNotOpen"
  by code_simp

subsection \<open>Waiting for a dispatch\<close>

text \<open>
  Claim C7. The claim: the promise of \<^verbatim>\<open>makePromise\<close> resolves with the payload of the
  next \<^verbatim>\<open>callHandlers\<close> for its identifier. The program: two calls of
  \<^verbatim>\<open>makePromise\<close> for the identifier \<^verbatim>\<open>a\<close> attach two one-call handlers; the next
  \<^verbatim>\<open>callHandlers\<close> for \<^verbatim>\<open>a\<close> removes the first and steps over the second (the defect
  of claim C1). The first promise is resolved; the second stays pending, its handler
  attached and its timer set.
\<close>

theorem second_makePromise_misses_dispatch:
  "map_sum id (\<lambda>c. (promises c, handlers (eventHandlers c), timers c))
     (run [MakePromise EventHandlers ''a'' 50, MakePromise EventHandlers ''a'' 50,
           CallHandlers EventHandlers ''a'' (IdentifierData ''a'' ''x'')] newClient) =
   Inr ([Resolved (IdentifierData ''a'' ''x''), Pending],
        [(''a'', Some [(PromiseFn 1, 1)])],
        [(1, EventHandlers, ''a'')])"
  by code_simp

subsection \<open>\<^verbatim>\<open>bootstrap\<close>\<close>

text \<open>
  Claim C3. The claim: once a \<^verbatim>\<open>def\<close> packet has arrived for every missing identifier,
  \<^verbatim>\<open>bootstrap\<close> sends one \<^verbatim>\<open>action\<close> packet per entry of its actions. The program: on
  an open connection, \<^verbatim>\<open>requireDefinitions\<close> for \<^verbatim>\<open>D1\<close> is followed by
  \<^verbatim>\<open>bootstrap\<close> with the action \<^verbatim>\<open>A\<close> and the awaited definition \<^verbatim>\<open>D1\<close>; both
  \<^verbatim>\<open>A\<close> and \<^verbatim>\<open>D1\<close> are missing. The \<^verbatim>\<open>def\<close> packets for \<^verbatim>\<open>A\<close> and \<^verbatim>\<open>D1\<close>
  arrive and both definitions are stored. \<^verbatim>\<open>callHandlers\<close> for \<^verbatim>\<open>D1\<close> removes the
  handler of \<^verbatim>\<open>requireDefinitions\<close> and steps over the handler of \<^verbatim>\<open>bootstrap\<close> (the
  defect of claim C1): nothing has been sent and the promise of \<^verbatim>\<open>bootstrap\<close> is
  pending.
\<close>

theorem bootstrap_misses_definition:
  "map_sum id (\<lambda>c. (map_option sent (connection c), bootstrap_promise c 0,
                     getRemoteDefinition ''action'' ''A'' c \<noteq> Inr None,
                     getRemoteDefinition ''event'' ''D1'' c \<noteq> Inr None))
     (run [Connect, SocketOpen,
           RequireDefinitions [''D1''] 1000,
           Bootstrap [(''A'', ''payload'')] [] [''D1''] 1000,
           Message \<lparr>p_type = DEFINITION, p_payload = DefinitionObject
                     \<lparr>d_identifier = ''A'', d_type = ''action'', d_fields = []\<rparr>\<rparr>,
           Message \<lparr>p_type = DEFINITION, p_payload = DefinitionObject
                     \<lparr>d_identifier = ''D1'', d_type = ''event'', d_fields = []\<rparr>\<rparr>]
        newClient) =
   Inr (Some [], BootstrapPending, True, True)"
  by code_simp

text \<open>Without the earlier \<^verbatim>\<open>requireDefinitions\<close>, the same two packets make
  \<^verbatim>\<open>bootstrap\<close> send the action.\<close>

lemma bootstrap_alone_sends_action:
  "map_sum id (\<lambda>c. (map_option sent (connection c), bootstrap_promise c 0))
     (run [Connect, SocketOpen,
           Bootstrap [(''A'', ''payload'')] [] [''D1''] 1000,
           Message \<lparr>p_type = DEFINITION, p_payload = DefinitionObject
                     \<lparr>d_identifier = ''A'', d_type = ''action'', d_fields = []\<rparr>\<rparr>,
           Message \<lparr>p_type = DEFINITION, p_payload = DefinitionObject
                     \<lparr>d_identifier = ''D1'', d_type = ''event'', d_fields = []\<rparr>\<rparr>]
        newClient) =
   Inr (Some [\<lparr>p_type = ACTION, p_payload = IdentifierData ''A'' ''payload''\<rparr>],
        BootstrapResolved [])"
  by code_simp

subsection \<open>A timer expires\<close>

text \<open>
  When the timer of a pending promise expires and the entry of its \<^verbatim>\<open>fn\<close> is the only one
  with that callback, the entry is detached and the promise is rejected with the time-out
  text that carries the identifier.
\<close>

text \<open>A hook changes nothing of the client but what the connection has sent.\<close>

lemma hook_send_when_connected:
  assumes "truthy (isConnected c)"
  shows "\<exists>k. on_connection (connection_sendSubscribe i) c = Inr (c\<lparr>connection := Some k\<rparr>)"
    and "\<exists>k. on_connection (connection_sendUnsubscribe i) c = Inr (c\<lparr>connection := Some k\<rparr>)"
  using assms
  by (auto simp: isConnected_def connection_isConnected_def on_connection_def socket_send_def
                 connection_sendSubscribe_def connection_sendUnsubscribe_def
           split: option.splits)

lemma run_effect_hook:
  assumes "e = FirstAdded i \<or> e = LastRemoved i"
  shows "\<exists>c'. run_effect mn e c = Inr c' \<and> (c' = c \<or> (\<exists>k. c' = c\<lparr>connection := Some k\<rparr>))"
proof (cases "mn = EventHandlers \<and> truthy (isConnected c)")
  case True
  with hook_send_when_connected[of c i] assms show ?thesis
    by (auto simp: eventHandlers_firstAdded_def eventHandlers_lastRemoved_def)
next
  case False
  with assms show ?thesis
    by (cases mn) (auto simp: eventHandlers_firstAdded_def eventHandlers_lastRemoved_def)
qed

lemma manager_of_update_same: "manager_of mn (manager_update mn m c) = m"
  by (cases mn) simp_all

lemma manager_of_connection: "manager_of mn (c\<lparr>connection := k\<rparr>) = manager_of mn c"
  by (cases mn) simp_all

lemma promises_manager_update: "promises (manager_update mn m c) = promises c"
  by (cases mn) simp_all

lemma timers_manager_update: "timers (manager_update mn m c) = timers c"
  by (cases mn) simp_all

lemma timer_expiry_rejects_and_detaches:
  assumes t: "find (\<lambda>t. fst t = n) (timers c) = Some (n, mn, i)"
    and g: "handlers_get (manager_of mn c) i = Some (h1 @ (PromiseFn n, k) # h2)"
    and n1: "PromiseFn n \<notin> fst ` set h1" and n2: "PromiseFn n \<notin> fst ` set h2"
    and p: "n < length (promises c)" "promises c ! n = Pending"
  shows "\<exists>c'. timer_expires n c = Inr c' \<and>
           promise_state c' n = Rejected (''time out '' @ i) \<and>
           handlers_get (manager_of mn c') i = (if h1 @ h2 = [] then None else Some (h1 @ h2)) \<and>
           n \<notin> fst ` set (timers c')"
proof -
  let ?c0 = "clearTimeout n c"
  have g0: "handlers_get (manager_of mn ?c0) i = Some (h1 @ (PromiseFn n, k) # h2)"
    using g by (cases mn) (simp_all add: clearTimeout_def)
  note d = detach_removes_single_entry[OF g0 n1 n2, of "[]"]
  define m' where "m' = (if h1 @ h2 = [] then handlers_set (manager_of mn ?c0) i None
                         else handlers_set (manager_of mn ?c0) i (Some (h1 @ h2)))"
  define es' :: "(callback, payload) effect list"
    where "es' = (if h1 @ h2 = [] then [LastRemoved i] else [])"
  have d': "detach i (PromiseFn n) (manager_of mn ?c0, []) = Inr (m', es')"
    using d by (cases "h1 @ h2 = []") (simp_all add: m'_def es'_def del: append_is_Nil_conv)
  have gm: "handlers_get m' i = (if h1 @ h2 = [] then None else Some (h1 @ h2))"
    by (simp add: m'_def handlers_get_set)
  let ?c1 = "manager_update mn m' ?c0"
  have "\<exists>c2. run_effects mn es' ?c1 = Inr c2 \<and> (c2 = ?c1 \<or> (\<exists>k. c2 = ?c1\<lparr>connection := Some k\<rparr>))"
  proof (cases "h1 @ h2 = []")
    case True
    from run_effect_hook[of "LastRemoved i" i mn ?c1] True show ?thesis
      by (auto simp: es'_def simp del: append_is_Nil_conv)
  next
    case False
    then show ?thesis by (simp add: es'_def del: append_is_Nil_conv)
  qed
  then obtain c2 where r: "run_effects mn es' ?c1 = Inr c2"
    and c2: "c2 = ?c1 \<or> (\<exists>k. c2 = ?c1\<lparr>connection := Some k\<rparr>)" by blast
  have om: "on_manager mn (detach i (PromiseFn n)) ?c0 = Inr c2"
    using d' r by (simp add: on_manager_def)
  have pr: "promises c2 = promises c" and tm: "timers c2 = filter (\<lambda>t. fst t \<noteq> n) (timers c)"
    and mg: "manager_of mn c2 = m'"
    using c2
    by (auto simp: promises_manager_update timers_manager_update manager_of_update_same
                   manager_of_connection clearTimeout_def)
  let ?c3 = "reject n (''time out '' @ i) c2"
  have te: "timer_expires n c = Inr ?c3"
    using t om by (simp add: timer_expires_def)
  have a: "promise_state ?c3 n = Rejected (''time out '' @ i)"
    using p pr by (simp add: promise_state_def reject_def)
  have b: "handlers_get (manager_of mn ?c3) i = (if h1 @ h2 = [] then None else Some (h1 @ h2))"
    using mg gm by (cases mn) (auto simp: reject_def)
  have c: "n \<notin> fst ` set (timers ?c3)"
    using tm by (auto simp: reject_def)
  from te a b c show ?thesis by blast
qed

lemma timer_expiry_rejects_and_detaches_witness:
  "map_sum id (\<lambda>c. (promises c, handlers (eventHandlers c), timers c))
     (timer_expires 0
        (newClient\<lparr>eventHandlers := \<lparr>handlers = [(''a'', Some [(PromiseFn 0, 1)])], handlers_keys = []\<rparr>,
                   promises := [Pending], timers := [(0, EventHandlers, ''a'')]\<rparr>)) =
   Inr ([Rejected ''time out a''], [(''a'', None)], [])"
proof -
  let ?c = "newClient\<lparr>eventHandlers := \<lparr>handlers = [(''a'', Some [(PromiseFn 0, 1)])], handlers_keys = []\<rparr>,
                   promises := [Pending], timers := [(0, EventHandlers, ''a'')]\<rparr>"
  have t: "find (\<lambda>t. fst t = 0) (timers ?c) = Some (0, EventHandlers, ''a'')" by simp
  have g: "handlers_get (manager_of EventHandlers ?c) ''a'' = Some ([] @ (PromiseFn 0, 1) # [])"
    by (simp add: handlers_get_def)
  have n: "PromiseFn 0 \<notin> fst ` set ([] :: (callback \<times> int) list)" by simp
  have p: "0 < length (promises ?c)" "promises ?c ! 0 = Pending" by simp_all
  from timer_expiry_rejects_and_detaches[OF t g n n p] obtain c' where
    c': "timer_expires 0 ?c = Inr c'" "promise_state c' 0 = Rejected (''time out '' @ ''a'')"
    by blast
  have ev: "map_sum id (\<lambda>c. (promises c, handlers (eventHandlers c), timers c)) (timer_expires 0 ?c) =
            Inr ([Rejected ''time out a''], [(''a'', None)], [])"
    by code_simp
  with c' show ?thesis by simp
qed

subsection \<open>Settled promises\<close>

text \<open>Whatever happens to a client, a promise that is resolved or rejected stays so: a
  dispatch after a time-out does not resolve the rejected promise.\<close>

lemma settled_kept_eq: "promises c' = promises c \<Longrightarrow> settled_kept c c'"
  by (simp add: settled_kept_def)

lemma settled_kept_trans: "settled_kept a b \<Longrightarrow> settled_kept b c \<Longrightarrow> settled_kept a c"
  by (fastforce simp: settled_kept_def)

lemma on_connection_promises: "on_connection f c = Inr c' \<Longrightarrow> promises c' = promises c"
  by (auto simp: on_connection_def split: option.splits sum.splits)

lemma settled_kept_resolve: "settled_kept c (resolve n v c)"
  by (auto simp: settled_kept_def resolve_def nth_list_update)

lemma settled_kept_reject: "settled_kept c (reject n r c)"
  by (auto simp: settled_kept_def reject_def nth_list_update)

lemma run_effect_settled: "run_effect mn e c = Inr c' \<Longrightarrow> settled_kept c c'"
proof (cases e)
  case (Invoke cb p)
  assume "run_effect mn e c = Inr c'"
  with Invoke show ?thesis
  proof (cases cb)
    case (UserCallback n)
    assume "run_effect mn e c = Inr c'"
    with Invoke UserCallback show ?thesis by (auto intro: settled_kept_eq)
  next
    case (PromiseFn n)
    assume "run_effect mn e c = Inr c'"
    with Invoke PromiseFn have "c' = clearTimeout n (resolve n p c)" by simp
    then have "promises c' = promises (resolve n p c)" by (simp add: clearTimeout_def)
    then have "settled_kept (resolve n p c) c'" by (rule settled_kept_eq)
    with settled_kept_resolve show ?thesis by (rule settled_kept_trans)
  qed
next
  case (FirstAdded i)
  assume "run_effect mn e c = Inr c'"
  with FirstAdded show ?thesis
    by (cases mn)
       (auto simp: eventHandlers_firstAdded_def split: if_splits
             intro!: settled_kept_eq dest: on_connection_promises)
next
  case (LastRemoved i)
  assume "run_effect mn e c = Inr c'"
  with LastRemoved show ?thesis
    by (cases mn)
       (auto simp: eventHandlers_lastRemoved_def split: if_splits
             intro!: settled_kept_eq dest: on_connection_promises)
qed

lemma run_effects_settled: "run_effects mn es c = Inr c' \<Longrightarrow> settled_kept c c'"
proof (induction es arbitrary: c)
  case Nil
  then show ?case by (simp add: settled_kept_eq)
next
  case (Cons e es)
  then obtain c1 where "run_effect mn e c = Inr c1" "run_effects mn es c1 = Inr c'"
    by (auto split: sum.splits)
  with Cons.IH show ?case by (blast intro: settled_kept_trans run_effect_settled)
qed

lemma on_manager_settled: "on_manager mn f c = Inr c' \<Longrightarrow> settled_kept c c'"
proof -
  assume a: "on_manager mn f c = Inr c'"
  then obtain m es where "run_effects mn es (manager_update mn m c) = Inr c'"
    by (auto simp: on_manager_def split: sum.splits prod.splits)
  then have "settled_kept (manager_update mn m c) c'" by (rule run_effects_settled)
  moreover have "settled_kept c (manager_update mn m c)"
    by (rule settled_kept_eq) (simp add: promises_manager_update)
  ultimately show ?thesis by (blast intro: settled_kept_trans)
qed

lemma makePromise_settled: "makePromise mn i t c = Inr (n, c') \<Longrightarrow> settled_kept c c'"
proof -
  assume a: "makePromise mn i t c = Inr (n, c')"
  let ?c1 = "c\<lparr>promises := promises c @ [Pending]\<rparr>"
  from a obtain c2 where om: "on_manager mn (\<lambda>st. Inr (attachOnce i (PromiseFn n) st)) ?c1 = Inr c2"
    and c': "promises c' = promises c2"
    by (auto simp: makePromise_def Let_def split: sum.splits if_splits)
  have "settled_kept c ?c1" by (auto simp: settled_kept_def nth_append)
  moreover from om have "settled_kept ?c1 c2" by (rule on_manager_settled)
  moreover from c' have "settled_kept c2 c'" by (rule settled_kept_eq)
  ultimately show ?thesis by (blast intro: settled_kept_trans)
qed

lemma makePromises_settled: "makePromises mn is t c = Inr (ns, c') \<Longrightarrow> settled_kept c c'"
proof (induction "is" arbitrary: c ns)
  case Nil
  then show ?case by (simp add: settled_kept_eq)
next
  case (Cons i "is")
  then obtain n c1 ns' where "makePromise mn i t c = Inr (n, c1)"
    "makePromises mn is t c1 = Inr (ns', c')"
    by (auto split: sum.splits prod.splits)
  with Cons.IH show ?case by (blast intro: settled_kept_trans makePromise_settled)
qed

lemma timer_expires_settled: "timer_expires n c = Inr c' \<Longrightarrow> settled_kept c c'"
proof -
  assume a: "timer_expires n c = Inr c'"
  show ?thesis
  proof (cases "find (\<lambda>t. fst t = n) (timers c)")
    case None
    with a show ?thesis by (simp add: timer_expires_def settled_kept_eq)
  next
    case (Some t)
    obtain n' mn i where t: "t = (n', mn, i)" by (cases t)
    with a Some obtain c1 where om: "on_manager mn (detach i (PromiseFn n)) (clearTimeout n c) = Inr c1"
      and c': "c' = reject n (''time out '' @ i) c1"
      by (auto simp: timer_expires_def split: sum.splits)
    have "settled_kept c (clearTimeout n c)" by (rule settled_kept_eq) (simp add: clearTimeout_def)
    moreover from om have "settled_kept (clearTimeout n c) c1" by (rule on_manager_settled)
    moreover have "settled_kept c1 c'" unfolding c' by (rule settled_kept_reject)
    ultimately show ?thesis by (blast intro: settled_kept_trans)
  qed
qed

lemma each_sendSubscribe_promises:
  "each_sendSubscribe ids c = Inr c' \<Longrightarrow> promises c' = promises c"
  by (induction ids arbitrary: c) (auto split: sum.splits dest: on_connection_promises)

lemma forEach_sendDefinition_promises:
  "forEach_sendDefinition dns c = Inr c' \<Longrightarrow> promises c' = promises c"
  by (induction dns arbitrary: c) (auto split: sum.splits dest: on_connection_promises)

lemma ready_promises: "ready c = Inr c' \<Longrightarrow> promises c' = promises c"
  by (auto simp: ready_def Let_def forEach_readyCallback_eq
           split: sum.splits
           dest!: each_sendSubscribe_promises forEach_sendDefinition_promises)

lemma channel_onopen_promises: "channel_onopen ch c = Inr c' \<Longrightarrow> promises c' = promises c"
  by (cases ch)
     (auto simp: channel_onopen_def channel_opens_def split: option.splits if_splits
           dest!: ready_promises)

lemma addLocalDefinition_promises:
  "addLocalDefinition t i fs c = Inr c' \<Longrightarrow> promises c' = promises c"
  by (auto simp: addLocalDefinition_def Let_def split: option.splits prod.splits if_splits
           dest!: on_connection_promises)

lemma removeLocalDefinition_promises:
  "removeLocalDefinition t i c = Inr c' \<Longrightarrow> promises c' = promises c"
  by (auto simp: removeLocalDefinition_def Let_def split: option.splits prod.splits if_splits
           dest!: on_connection_promises)

lemma handleMessage_settled: "handleMessage pk c = Inr c' \<Longrightarrow> settled_kept c c'"
proof -
  assume a: "handleMessage pk c = Inr c'"
  have upd: "settled_kept c (c\<lparr>remoteDefinitions := r\<rparr>)" for r
    by (rule settled_kept_eq) simp
  from a show ?thesis
    by (auto simp: handleMessage_def
             split: option.splits if_splits payload.splits prod.splits sum.splits
             intro: settled_kept_eq on_manager_settled
                    settled_kept_trans[OF upd on_manager_settled]
                    settled_kept_trans[OF settled_kept_trans[OF upd on_manager_settled] settled_kept_eq]
             dest: on_connection_promises)
qed

lemma forEach_sendAction_promises:
  "forEach_sendAction as c = (r, c') \<Longrightarrow> promises c' = promises c"
  by (induction as arbitrary: c) (auto split: sum.splits dest: on_connection_promises)

lemma bootstrap_promises_settled:
  "bootstrap_promises as es t c = (r, c') \<Longrightarrow> settled_kept c c'"
  by (auto simp: bootstrap_promises_def split: sum.splits prod.splits option.splits
           intro: settled_kept_eq settled_kept_trans[OF makePromises_settled settled_kept_eq]
           dest: forEach_sendAction_promises)

lemma bootstrap_settled: "bootstrap as es ds t c = Inr c' \<Longrightarrow> settled_kept c c'"
proof -
  assume a: "bootstrap as es ds t c = Inr c'"
  have upd: "settled_kept c1 (c1\<lparr>bootstraps := b\<rparr>)" for c1 b
    by (rule settled_kept_eq) simp
  from a show ?thesis
    by (auto simp: bootstrap_def requireDefinitions_def Let_def
             split: sum.splits prod.splits if_splits
             intro: settled_kept_trans[OF makePromises_settled upd]
                    settled_kept_trans[OF bootstrap_promises_settled upd])
qed

lemma continue_bootstrap_settled: "settled_kept c (continue_bootstrap j c)"
proof -
  have upd: "settled_kept c1 (c1\<lparr>bootstraps := b\<rparr>)" for c1 b
    by (rule settled_kept_eq) simp
  show ?thesis
    by (auto simp: continue_bootstrap_def Let_def
             split: stage.splits promise_all.splits sum.splits prod.splits
             intro: settled_kept_eq settled_kept_trans[OF bootstrap_promises_settled upd])
qed

lemma fold_continue_settled: "settled_kept c (fold continue_bootstrap js c)"
proof (induction js arbitrary: c)
  case Nil
  show ?case by (simp add: settled_kept_eq)
next
  case (Cons j js)
  from continue_bootstrap_settled[of c j] Cons[of "continue_bootstrap j c"]
  show ?case by (auto intro: settled_kept_trans)
qed

lemma perform_settled: "perform i c = Inr c' \<Longrightarrow> settled_kept c c'"
  by (cases i)
     (auto simp: connect_def socket_onopen_def onReady_def sendEvent_def sendAction_def
                 requireDefinitions_def
           split: sum.splits prod.splits
           intro: settled_kept_eq timer_expires_settled handleMessage_settled on_manager_settled
                  makePromise_settled makePromises_settled bootstrap_settled
           dest: channel_onopen_promises addLocalDefinition_promises removeLocalDefinition_promises
                 on_connection_promises)

lemma step_settled: "step i c = Inr c' \<Longrightarrow> settled_kept c c'"
  by (auto simp: step_def run_continuations_def split: sum.splits
           intro: settled_kept_trans[OF perform_settled fold_continue_settled])

lemma run_settled: "run inputs c = Inr c' \<Longrightarrow> settled_kept c c'"
proof (induction inputs arbitrary: c)
  case Nil
  then show ?case by (simp add: settled_kept_eq)
next
  case (Cons i inputs)
  then obtain c1 where "step i c = Inr c1" "run inputs c1 = Inr c'"
    by (auto split: sum.splits)
  with Cons.IH show ?case by (blast intro: settled_kept_trans step_settled)
qed

lemma settled_promise_stays_settled:
  assumes "run inputs c = Inr c'" and "promise_state c n \<noteq> Pending"
  shows "promise_state c' n = promise_state c n"
  using run_settled[OF assms(1)] assms(2)
  by (auto simp: settled_kept_def promise_state_def split: if_splits)

lemma settled_promise_stays_settled_witness:
  "map_sum id (\<lambda>c. promise_state c 0)
     (run [CallHandlers EventHandlers ''a'' (IdentifierData ''a'' ''late'')]
        (newClient\<lparr>promises := [Rejected ''time out a'']\<rparr>)) =
   Inr (Rejected ''time out a'')"
proof -
  let ?c = "newClient\<lparr>promises := [Rejected ''time out a'']\<rparr>"
  let ?is = "[CallHandlers EventHandlers ''a'' (IdentifierData ''a'' ''late'')]"
  have "(case run ?is ?c of Inl e \<Rightarrow> False | Inr c \<Rightarrow> True)" by code_simp
  then obtain c' where r: "run ?is ?c = Inr c'" by (auto split: sum.splits)
  have s: "promise_state ?c 0 \<noteq> Pending" by (simp add: promise_state_def)
  from settled_promise_stays_settled[OF r s] r show ?thesis by (simp add: promise_state_def)
qed

end
